theory Spec2Isabelle
  imports Main "HOL-Library.List_Lexorder" "HOL-Library.Char_ord" "HOL-Library.Multiset"
begin

section \<open>Upstream responses and JavaScript promises\<close>

text \<open>
  The service of \<^verbatim>\<open>src/index.js\<close> talks to a paginated upstream API through the
  native \<^verbatim>\<open>fetch\<close>.  A call of \<^verbatim>\<open>fetch\<close> either rejects (a transport failure) or
  resolves with a response that carries the flag \<^verbatim>\<open>ok\<close> and a body; decoding the
  body with \<^verbatim>\<open>response.json()\<close> rejects when the body is not JSON.  Exceptions are
  values of the type \<open>error\<close>, and an awaited promise is a value of \<open>error + 'a\<close>.
\<close>

type_synonym url = string

datatype error = FetchFailed | JsonSyntaxError | RangeError

datatype 'a response = Rejected | Response bool "'a option"

datatype upstream_call = PageCall string nat | LinkCall url

text \<open>\<^verbatim>\<open>await fetch(url)\<close>: the response object, or the rejection.\<close>

definition fetch :: "'a response \<Rightarrow> error + (bool \<times> 'a option)" where
  "fetch r = (case r of Rejected \<Rightarrow> Inl FetchFailed | Response ok b \<Rightarrow> Inr (ok, b))"

text \<open>\<^verbatim>\<open>await response.json()\<close>; the status of the response plays no part in it.\<close>

definition json :: "bool \<times> 'a option \<Rightarrow> error + 'a" where
  "json r = (case snd r of None \<Rightarrow> Inl JsonSyntaxError | Some d \<Rightarrow> Inr d)"

text \<open>
  \<^verbatim>\<open>await Promise.all(ps)\<close>: the list of the values when every promise fulfils, a
  rejection as soon as one of them rejects.  Which of several rejections is reported
  depends on their timing; wherever the function is used below, the promises of one
  call can only reject with one and the same exception.
\<close>

fun promise_all :: "(error + 'a) list \<Rightarrow> error + 'a list" where
  "promise_all [] = Inr []"
| "promise_all (Inl e # ps) = Inl e"
| "promise_all (Inr x # ps) = (case promise_all ps of Inl e \<Rightarrow> Inl e | Inr xs \<Rightarrow> Inr (x # xs))"

section \<open>Records of the upstream API\<close>

text \<open>
  A page of a collection is the envelope \<^verbatim>\<open>{ count, results }\<close>.  A person has the
  three string properties the service sorts by; a planet has the list of links to its
  residents.  The remaining properties of either object are kept as they are.
\<close>

record 'a envelope =
  count :: nat
  results :: "'a list"

record person =
  name :: string
  height :: string
  mass :: string
  person_rest :: "(string \<times> string) list"

record planet =
  residents :: "string list"
  planet_rest :: "(string \<times> string) list"

section \<open>fetchAllPages\<close>

text \<open>
  The page size is the natural number that the environment variable
  \<^verbatim>\<open>SWAPI_PAGE_SIZE\<close> holds, a parameter of the model.
  \<^verbatim>\<open>Math.ceil(count / process.env.SWAPI_PAGE_SIZE) - 1\<close> is a JavaScript number:
  a division by zero gives \<^verbatim>\<open>NaN\<close> (for \<^verbatim>\<open>0 / 0\<close>) or \<^verbatim>\<open>Infinity\<close>.
\<close>

datatype js_number = NaN | PosInfinity | Finite int

definition remainingPages :: "nat \<Rightarrow> nat \<Rightarrow> js_number" where
  "remainingPages cnt pageSize =
     (if pageSize = 0 then (if cnt = 0 then NaN else PosInfinity)
      else Finite (int ((cnt + pageSize - 1) div pageSize) - 1))"

text \<open>
  \<^verbatim>\<open>Array.from({ length: n }, (_, i) => ...)\<close> throws a RangeError for a length
  beyond \<open>2^32 - 1\<close>; otherwise it calls the function at \<open>0, ..., n - 1\<close>.
\<close>

definition max_array_length :: int where
  "max_array_length = 4294967295"

text \<open>
  The function returns the awaited result together with the upstream calls it has
  issued, in the order of issue.  The requests for the remaining pages are all issued
  before the first of them is awaited.
\<close>

definition fetchAllPages ::
  "nat \<Rightarrow> (string \<Rightarrow> nat \<Rightarrow> 'a envelope response) \<Rightarrow> string
     \<Rightarrow> (error + 'a list) \<times> upstream_call list" where
  "fetchAllPages pageSize upstream endpoint =
     (case fetch (upstream endpoint 1) of
        Inl e \<Rightarrow> (Inl e, [PageCall endpoint 1])
      | Inr initialRequest \<Rightarrow>
     (case json initialRequest of
        Inl e \<Rightarrow> (Inl e, [PageCall endpoint 1])
      | Inr initialData \<Rightarrow>
     (case remainingPages (count initialData) pageSize of
        NaN \<Rightarrow> (Inr (results initialData), [PageCall endpoint 1])
      | PosInfinity \<Rightarrow> (Inl RangeError, [PageCall endpoint 1])
      | Finite n \<Rightarrow>
          if n > 0 then
            if n > max_array_length then (Inl RangeError, [PageCall endpoint 1])
            else
              let pages = map (\<lambda>i. i + 2) [0..<nat n];
                  calls = PageCall endpoint 1 # map (PageCall endpoint) pages;
                  requests = map (\<lambda>p. fetch (upstream endpoint p)) pages
              in (case promise_all requests of
                    Inl e \<Rightarrow> (Inl e, calls)
                  | Inr responses \<Rightarrow>
                 (case promise_all (map json responses) of
                    Inl e \<Rightarrow> (Inl e, calls)
                  | Inr data \<Rightarrow>
                      (Inr (results initialData @ concat (map results data)), calls)))
          else (Inr (results initialData), [PageCall endpoint 1]))))"

section \<open>fetchResidentsWithErrorHandling\<close>

text \<open>
  One promise per occurrence of a resident link: the body of the \<^verbatim>\<open>try\<close> block
  first, then the \<^verbatim>\<open>catch\<close> that turns every exception into the name
  \<^verbatim>\<open>'Unknown'\<close>.
\<close>

definition residentTry :: "person response \<Rightarrow> nat \<Rightarrow> error + (nat \<times> string)" where
  "residentTry r planetIndex =
     (case fetch r of
        Inl e \<Rightarrow> Inl e
      | Inr response \<Rightarrow>
          if \<not> fst response then Inr (planetIndex, ''Unknown'')
          else (case json response of
                  Inl e \<Rightarrow> Inl e
                | Inr data \<Rightarrow> Inr (planetIndex, name data)))"

definition residentPromise :: "person response \<Rightarrow> nat \<Rightarrow> error + (nat \<times> string)" where
  "residentPromise r planetIndex =
     (case residentTry r planetIndex of
        Inl e \<Rightarrow> Inr (planetIndex, ''Unknown'')
      | Inr v \<Rightarrow> Inr v)"

text \<open>\<^verbatim>\<open>planets.flatMap((planet, planetIndex) => planet.residents.map(url => ({ planetIndex, url })))\<close>\<close>

definition allResidentUrls :: "planet list \<Rightarrow> (nat \<times> url) list" where
  "allResidentUrls planets =
     concat (map (\<lambda>(planetIndex, p). map (\<lambda>u. (planetIndex, u)) (residents p))
                 (enumerate 0 planets))"

text \<open>The reducer that groups the names by the index of their planet.\<close>

definition groupStep :: "(nat \<rightharpoonup> string list) \<Rightarrow> nat \<times> string \<Rightarrow> (nat \<rightharpoonup> string list)" where
  "groupStep acc r =
     (let acc1 = (if acc (fst r) = None then acc(fst r \<mapsto> []) else acc)
      in acc1(fst r \<mapsto> the (acc1 (fst r)) @ [snd r]))"

text \<open>
  The upstream answers the \<open>i\<close>-th lookup that is issued, for the link \<open>u\<close>, with
  \<open>links i u\<close>: two lookups of one link are two requests and may be answered
  differently.
\<close>

definition fetchResidentsWithErrorHandling ::
  "(nat \<Rightarrow> url \<Rightarrow> person response) \<Rightarrow> planet list
     \<Rightarrow> (error + planet list) \<times> upstream_call list" where
  "fetchResidentsWithErrorHandling links planets =
     (let urls = allResidentUrls planets;
          residentPromises =
            map (\<lambda>(i, (planetIndex, u)). residentPromise (links i u) planetIndex)
                (enumerate 0 urls);
          calls = map (\<lambda>(planetIndex, u). LinkCall u) urls
      in (case promise_all residentPromises of
            Inl e \<Rightarrow> (Inl e, calls)
          | Inr residentResults \<Rightarrow>
              let residentsByPlanet = foldl groupStep Map.empty residentResults
              in (Inr (map (\<lambda>(index, p).
                             p\<lparr>residents := (case residentsByPlanet index of
                                               None \<Rightarrow> [] | Some ns \<Rightarrow> ns)\<rparr>)
                           (enumerate 0 planets)),
                  calls)))"

section \<open>Arrays and the sort step\<close>

text \<open>
  \<^verbatim>\<open>Array.prototype.sort\<close> sorts the array it is called on and returns that same
  array.  Arrays therefore live in a store, and a variable holds a reference.  For a
  consistent comparator the language fixes the outcome: the elements in ascending order
  of the comparator, elements that compare equal in their former order.  The insertion
  sort below computes that outcome; for a comparator that is not consistent the order is
  left to the engine and the model does not follow it.
\<close>

type_synonym ref = nat
type_synonym 'a heap = "'a list list"

definition alloc :: "'a list \<Rightarrow> 'a heap \<Rightarrow> ref \<times> 'a heap" where
  "alloc xs h = (length h, h @ [xs])"

fun js_insert :: "('a \<Rightarrow> 'a \<Rightarrow> int) \<Rightarrow> 'a \<Rightarrow> 'a list \<Rightarrow> 'a list" where
  "js_insert cmp x [] = [x]"
| "js_insert cmp x (y # ys) = (if cmp x y \<le> 0 then x # y # ys else y # js_insert cmp x ys)"

definition js_sorted :: "('a \<Rightarrow> 'a \<Rightarrow> int) \<Rightarrow> 'a list \<Rightarrow> 'a list" where
  "js_sorted cmp xs = foldr (js_insert cmp) xs []"

definition array_sort :: "('a \<Rightarrow> 'a \<Rightarrow> int) \<Rightarrow> ref \<Rightarrow> 'a heap \<Rightarrow> ref \<times> 'a heap" where
  "array_sort cmp r h = (r, h[r := js_sorted cmp (h ! r)])"


text \<open>
  The value of a query parameter is a string or, for a repeated or bracketed parameter,
  an array or an object.  The two allow-lists hold strings.
\<close>

datatype query_value = Str string | Structured

definition VALID_SORT_BY :: "query_value list" where
  "VALID_SORT_BY = [Str ''name'', Str ''height'', Str ''mass'']"

definition VALID_SORT_ORDER :: "query_value list" where
  "VALID_SORT_ORDER = [Str ''asc'', Str ''desc'']"

text \<open>
  \<^verbatim>\<open>a[sortBy]\<close>, for a \<^verbatim>\<open>sortBy\<close> that has passed the validation against
  \<open>VALID_SORT_BY\<close>: the sort step is reached with no other value.
\<close>

definition person_prop :: "query_value \<Rightarrow> person \<Rightarrow> string" where
  "person_prop sortBy a =
     (if sortBy = Str ''name'' then name a
      else if sortBy = Str ''height'' then height a else mass a)"

text \<open>
  The comparator of the sort step.  \<^verbatim>\<open>localeCompare\<close> is the collation of the host's
  locale, a parameter of the model.
\<close>

definition compare_people ::
  "(string \<Rightarrow> string \<Rightarrow> int) \<Rightarrow> query_value \<Rightarrow> query_value \<Rightarrow> person \<Rightarrow> person
     \<Rightarrow> int" where
  "compare_people localeCompare sortBy sortOrder a b =
     (if sortOrder = Str ''asc'' then localeCompare (person_prop sortBy a) (person_prop sortBy b)
      else localeCompare (person_prop sortBy b) (person_prop sortBy a))"

definition sort_stage ::
  "(string \<Rightarrow> string \<Rightarrow> int) \<Rightarrow> query_value \<Rightarrow> query_value \<Rightarrow> ref \<Rightarrow> person heap
     \<Rightarrow> ref \<times> person heap" where
  "sort_stage localeCompare sortBy sortOrder people h =
     array_sort (compare_people localeCompare sortBy sortOrder) people h"

section \<open>The cache\<close>

text \<open>
  The cache is \<^verbatim>\<open>new NodeCache()\<close>, a library that is not among the sources.  An entry
  holds a collection and its expiry time.  Times are milliseconds, as \<^verbatim>\<open>Date.now()\<close>
  gives them; an expiry time \<open>0\<close> means that the entry never expires.
\<close>

record 'a entry =
  v :: "'a list"
  t :: nat

type_synonym 'a node_cache = "string \<rightharpoonup> 'a entry"

text \<open>
  Modelled from the spec: \<^verbatim>\<open>get(key)\<close> of the cache library, which is not among the
  sources.  A key that was never set and a key whose entry is past its expiry time are
  both a miss; expiry is checked on the read, which drops the expired entry.  The caller
  gets a copy of the collection (the library clones by default), so the entry holds the
  elements themselves and shares no array with its callers.
\<close>

definition cache_get :: "string \<Rightarrow> nat \<Rightarrow> 'a node_cache \<Rightarrow> 'a list option \<times> 'a node_cache" where
  "cache_get key now c =
     (case c key of
        None \<Rightarrow> (None, c)
      | Some e \<Rightarrow> if t e \<noteq> 0 \<and> t e < now then (None, c(key := None)) else (Some (v e), c))"

text \<open>
  Modelled from the spec: \<^verbatim>\<open>set(key, value, ttl)\<close> of the cache library, which is not
  among the sources.  The entry is replaced as a whole by a copy of the value and expires
  \<open>ttl\<close> seconds after the store; a \<open>ttl\<close> of \<open>0\<close> means no expiry.
\<close>

definition cache_set :: "string \<Rightarrow> 'a list \<Rightarrow> nat \<Rightarrow> nat \<Rightarrow> 'a node_cache \<Rightarrow> 'a node_cache" where
  "cache_set key val ttl now c =
     c(key \<mapsto> \<lparr>v = val, t = (if ttl = 0 then 0 else now + ttl * 1000)\<rparr>)"

text \<open>The cache of a process that has just started.\<close>

definition myCache :: "'a node_cache" where
  "myCache = Map.empty"

section \<open>The two endpoints\<close>

text \<open>
  A reply is \<^verbatim>\<open>{ count, results }\<close> with status 200, or a status and an error message.
  A query parameter is absent or has a value.
\<close>

datatype 'a reply = Ok nat "'a list" | Failure nat string

record query =
  sortBy_param :: "query_value option"
  sortOrder_param :: "query_value option"

text \<open>
  \<^verbatim>\<open>req.query.x || d\<close>: an absent parameter and the empty string both give the
  default; every other value is kept.
\<close>

definition or_default :: "query_value option \<Rightarrow> query_value \<Rightarrow> query_value" where
  "or_default q d = (case q of None \<Rightarrow> d | Some x \<Rightarrow> if x = Str [] then d else x)"

text \<open>
  A handler reads the clock twice: at the lookup in the cache (\<open>now\<close>) and, after the
  upstream calls, at the store into the cache (\<open>later\<close>).  It returns its reply, the
  cache it leaves and the upstream calls it has issued.  An exception in the body of
  \<^verbatim>\<open>try\<close> ends in the reply of the \<^verbatim>\<open>catch\<close> block, with status 500.  The
  array \<^verbatim>\<open>people\<close> lives in a store of its own; the cache is given its elements
  before the sort step reorders it.
\<close>

definition people_sorted ::
  "(string \<Rightarrow> string \<Rightarrow> int) \<Rightarrow> query_value \<Rightarrow> query_value \<Rightarrow> ref \<Rightarrow> person heap
     \<Rightarrow> person reply" where
  "people_sorted localeCompare sortBy sortOrder people h =
     (let (people1, h1) = sort_stage localeCompare sortBy sortOrder people h
      in Ok (length (h1 ! people1)) (h1 ! people1))"

definition get_people ::
  "nat \<Rightarrow> (string \<Rightarrow> string \<Rightarrow> int) \<Rightarrow> (string \<Rightarrow> nat \<Rightarrow> person envelope response) \<Rightarrow> query
     \<Rightarrow> nat \<Rightarrow> nat \<Rightarrow> person node_cache
     \<Rightarrow> person reply \<times> person node_cache \<times> upstream_call list" where
  "get_people pageSize localeCompare upstream q now later cache =
     (let sortBy = or_default (sortBy_param q) (Str ''name'');
          sortOrder = or_default (sortOrder_param q) (Str ''asc'')
      in if sortBy \<notin> set VALID_SORT_BY then (Failure 400 ''Invalid sortBy parameter'', cache, [])
         else if sortOrder \<notin> set VALID_SORT_ORDER
           then (Failure 400 ''Invalid sortOrder parameter'', cache, [])
         else
           let (cached, cache1) = cache_get ''PEOPLE'' now cache;
               (people, h) = alloc (case cached of None \<Rightarrow> [] | Some xs \<Rightarrow> xs) []
           in if length (h ! people) = 0 then
                (case fetchAllPages pageSize upstream ''people'' of
                   (Inl e, calls) \<Rightarrow> (Failure 500 ''Internal server error'', cache1, calls)
                 | (Inr fetched, calls) \<Rightarrow>
                     let (people1, h1) = alloc fetched h;
                         cache2 = cache_set ''PEOPLE'' (h1 ! people1) 300 later cache1
                     in (people_sorted localeCompare sortBy sortOrder people1 h1, cache2, calls))
              else (people_sorted localeCompare sortBy sortOrder people h, cache1, []))"

definition get_planets ::
  "nat \<Rightarrow> (string \<Rightarrow> nat \<Rightarrow> planet envelope response) \<Rightarrow> (nat \<Rightarrow> url \<Rightarrow> person response)
     \<Rightarrow> nat \<Rightarrow> nat \<Rightarrow> planet node_cache
     \<Rightarrow> planet reply \<times> planet node_cache \<times> upstream_call list" where
  "get_planets pageSize upstream links now later cache =
     (let (cached, cache1) = cache_get ''PLANETS'' now cache;
          planets = (case cached of None \<Rightarrow> [] | Some xs \<Rightarrow> xs)
      in if length planets = 0 then
           (case fetchAllPages pageSize upstream ''planets'' of
              (Inl e, calls) \<Rightarrow> (Failure 500 ''Internal server error'', cache1, calls)
            | (Inr planets1, calls) \<Rightarrow>
           (case fetchResidentsWithErrorHandling links planets1 of
              (Inl e, calls2) \<Rightarrow> (Failure 500 ''Internal server error'', cache1, calls @ calls2)
            | (Inr planets2, calls2) \<Rightarrow>
                (Ok (length planets2) planets2,
                 cache_set ''PLANETS'' planets2 300 later cache1,
                 calls @ calls2)))
         else (Ok (length planets) planets, cache1, []))"

section \<open>Requests in sequence\<close>

text \<open>
  The server handles one request after the other; a request comes with the state of the
  upstream while it is handled and with its two readings of the clock.  The loop returns
  the reply and the upstream calls of every request, and the cache at the end.  Requests
  whose handling overlaps in time are outside this model.
\<close>

record planets_request =
  planets_pages :: "string \<Rightarrow> nat \<Rightarrow> planet envelope response"
  planets_links :: "nat \<Rightarrow> url \<Rightarrow> person response"
  planets_now :: nat
  planets_later :: nat

record people_request =
  people_pages :: "string \<Rightarrow> nat \<Rightarrow> person envelope response"
  people_query :: query
  people_now :: nat
  people_later :: nat

fun serve_planets ::
  "nat \<Rightarrow> planets_request list \<Rightarrow> planet node_cache
     \<Rightarrow> (planet reply \<times> upstream_call list) list \<times> planet node_cache" where
  "serve_planets pageSize [] cache = ([], cache)"
| "serve_planets pageSize (r # rs) cache =
     (let (reply, cache1, calls) =
            get_planets pageSize (planets_pages r) (planets_links r) (planets_now r)
              (planets_later r) cache;
          (replies, cache2) = serve_planets pageSize rs cache1
      in ((reply, calls) # replies, cache2))"

fun serve_people ::
  "nat \<Rightarrow> (string \<Rightarrow> string \<Rightarrow> int) \<Rightarrow> people_request list \<Rightarrow> person node_cache
     \<Rightarrow> (person reply \<times> upstream_call list) list \<times> person node_cache" where
  "serve_people pageSize localeCompare [] cache = ([], cache)"
| "serve_people pageSize localeCompare (r # rs) cache =
     (let (reply, cache1, calls) =
            get_people pageSize localeCompare (people_pages r) (people_query r) (people_now r)
              (people_later r) cache;
          (replies, cache2) = serve_people pageSize localeCompare rs cache1
      in ((reply, calls) # replies, cache2))"

section \<open>Notions used in the statements\<close>

text \<open>
  What one lookup of a resident contributes: the name in the decoded body of a
  successful response, \<^verbatim>\<open>'Unknown'\<close> otherwise.
\<close>

definition lookup_name :: "person response \<Rightarrow> string" where
  "lookup_name r =
     (case r of
        Rejected \<Rightarrow> ''Unknown''
      | Response ok b \<Rightarrow>
          if ok then (case b of None \<Rightarrow> ''Unknown'' | Some d \<Rightarrow> name d) else ''Unknown'')"

text \<open>
  A fetch fails by a transport error or by a status that is not a success: the failures
  that \<open>residentTry\<close> tells from a success.
\<close>

definition fetch_fails :: "'a response \<Rightarrow> bool" where
  "fetch_fails r = (case r of Rejected \<Rightarrow> True | Response ok b \<Rightarrow> \<not> ok)"

text \<open>
  The number, in the order of issue, of the lookup for link \<open>j\<close> of planet \<open>i\<close>: the
  links of the planets before it come first.
\<close>

definition lookup_index :: "planet list \<Rightarrow> nat \<Rightarrow> nat \<Rightarrow> nat" where
  "lookup_index planets i j = length (concat (map residents (take i planets))) + j"

definition urls_from :: "nat \<Rightarrow> planet list \<Rightarrow> (nat \<times> url) list" where
  "urls_from n ps =
     concat (map (\<lambda>(planetIndex, p). map (\<lambda>u. (planetIndex, u)) (residents p)) (enumerate n ps))"

definition results_from ::
  "(nat \<Rightarrow> url \<Rightarrow> person response) \<Rightarrow> nat \<Rightarrow> nat \<Rightarrow> planet list \<Rightarrow> (nat \<times> string) list" where
  "results_from links k n ps =
     map (\<lambda>(i, (planetIndex, u)). (planetIndex, lookup_name (links i u)))
         (enumerate k (urls_from n ps))"

text \<open>
  A page fetch fails when \<^verbatim>\<open>fetch\<close> rejects or the body cannot be decoded; both
  exceptions report that the upstream is unavailable.
\<close>

definition page_fails :: "'a response \<Rightarrow> bool" where
  "page_fails r = (case r of Rejected \<Rightarrow> True | Response ok b \<Rightarrow> b = None)"

definition upstream_unavailable :: "error \<Rightarrow> bool" where
  "upstream_unavailable e = (e = FetchFailed \<or> e = JsonSyntaxError)"

text \<open>
  The page numbers that \<open>fetchAllPages\<close> requests after the first page, for the count
  that the first page reports.
\<close>

definition remaining_page_numbers :: "nat \<Rightarrow> nat \<Rightarrow> nat list" where
  "remaining_page_numbers pageSize cnt =
     (case remainingPages cnt pageSize of
        Finite n \<Rightarrow> if 0 < n \<and> n \<le> max_array_length then map (\<lambda>i. i + 2) [0..<nat n] else []
      | _ \<Rightarrow> [])"

text \<open>
  A collection \<open>xs\<close> served in pages of \<open>pageSize\<close> records: the number of its pages (an
  empty collection has one, empty, page) and the envelope of page \<open>n\<close>, which reports
  the size of the whole collection.
\<close>

definition page_count :: "nat \<Rightarrow> nat \<Rightarrow> nat" where
  "page_count pageSize cnt = max 1 ((cnt + pageSize - 1) div pageSize)"

definition page_of :: "nat \<Rightarrow> 'a list \<Rightarrow> nat \<Rightarrow> 'a envelope" where
  "page_of pageSize xs n =
     \<lparr>count = length xs, results = take pageSize (drop ((n - 1) * pageSize) xs)\<rparr>"

text \<open>
  The cache serves a key at time \<open>now\<close> when it holds an entry for it that has not expired
  and whose collection is not empty; it holds nothing for a key when it has no entry or
  an entry with the empty collection, whatever its expiry time.
\<close>

definition fresh :: "string \<Rightarrow> nat \<Rightarrow> 'a node_cache \<Rightarrow> bool" where
  "fresh key now cache =
     (case cache key of None \<Rightarrow> False | Some e \<Rightarrow> v e \<noteq> [] \<and> \<not> (t e \<noteq> 0 \<and> t e < now))"

definition holds_nothing :: "string \<Rightarrow> 'a node_cache \<Rightarrow> bool" where
  "holds_nothing key cache = (case cache key of None \<Rightarrow> True | Some e \<Rightarrow> v e = [])"

text \<open>
  One cycle of fetching all planets and resolving their residents, with the calls it
  issues; the reply that the result of a cycle is turned into.
\<close>

definition fetch_and_resolve ::
  "nat \<Rightarrow> (string \<Rightarrow> nat \<Rightarrow> planet envelope response) \<Rightarrow> (nat \<Rightarrow> url \<Rightarrow> person response)
     \<Rightarrow> (error + planet list) \<times> upstream_call list" where
  "fetch_and_resolve pageSize upstream links =
     (case fetchAllPages pageSize upstream ''planets'' of
        (Inl e, calls) \<Rightarrow> (Inl e, calls)
      | (Inr planets, calls) \<Rightarrow>
          (case fetchResidentsWithErrorHandling links planets of
             (r, calls2) \<Rightarrow> (r, calls @ calls2)))"

definition reply_of :: "error + 'a list \<Rightarrow> 'a reply" where
  "reply_of r = (case r of Inl e \<Rightarrow> Failure 500 ''Internal server error'' | Inr xs \<Rightarrow> Ok (length xs) xs)"

text \<open>
  The validation of the query of \<^verbatim>\<open>/people\<close>, after the defaults have been filled in,
  and the comparator that the query selects.
\<close>

definition sort_params_valid :: "query \<Rightarrow> bool" where
  "sort_params_valid q =
     (or_default (sortBy_param q) (Str ''name'') \<in> set VALID_SORT_BY
      \<and> or_default (sortOrder_param q) (Str ''asc'') \<in> set VALID_SORT_ORDER)"

definition people_comparator :: "(string \<Rightarrow> string \<Rightarrow> int) \<Rightarrow> query \<Rightarrow> person \<Rightarrow> person \<Rightarrow> int" where
  "people_comparator localeCompare q =
     compare_people localeCompare (or_default (sortBy_param q) (Str ''name''))
       (or_default (sortOrder_param q) (Str ''asc''))"


section \<open>Sample data\<close>

definition leia :: person where
  "leia = \<lparr>name = ''Leia Organa'', height = ''150'', mass = ''49'', person_rest = []\<rparr>"

definition alderaan :: planet where
  "alderaan = \<lparr>residents = [''A'', ''B''], planet_rest = [(''name'', ''Alderaan'')]\<rparr>"

definition yavin :: planet where
  "yavin = \<lparr>residents = [''A''], planet_rest = [(''name'', ''Yavin IV'')]\<rparr>"

text \<open>An upstream that knows the resident behind link \<open>A\<close> and is unreachable otherwise.\<close>

definition sample_links :: "nat \<Rightarrow> url \<Rightarrow> person response" where
  "sample_links i u = (if u = ''A'' then Response True (Some leia) else Rejected)"

definition han :: person where
  "han = \<lparr>name = ''Han Solo'', height = ''180'', mass = ''80'', person_rest = []\<rparr>"

text \<open>
  An upstream that answers the first lookup that is issued, when it is for link \<open>A\<close>,
  and every lookup of link \<open>B\<close>; a later lookup of \<open>A\<close> finds it unreachable.
\<close>

definition flaky_links :: "nat \<Rightarrow> url \<Rightarrow> person response" where
  "flaky_links i u =
     (if u = ''A'' \<and> i = 0 then Response True (Some leia)
      else if u = ''B'' then Response True (Some han) else Rejected)"

text \<open>
  Thirteen records in pages of ten; pages beyond the second do not exist.  The second
  upstream loses the connection after the first page.
\<close>

definition thirteen :: "nat list" where
  "thirteen = [1, 2, 3, 4, 5, 6, 7, 8, 9, 10, 11, 12, 13]"

definition two_pages :: "string \<Rightarrow> nat \<Rightarrow> nat envelope response" where
  "two_pages e n =
     (if n = 1 then Response True (Some \<lparr>count = 13, results = [1, 2, 3, 4, 5, 6, 7, 8, 9, 10]\<rparr>)
      else if n = 2 then Response True (Some \<lparr>count = 13, results = [11, 12, 13]\<rparr>)
      else Response False None)"

definition second_page_down :: "string \<Rightarrow> nat \<Rightarrow> nat envelope response" where
  "second_page_down e n = (if n = 1 then two_pages e 1 else Rejected)"

text \<open>
  A third upstream answers every page after the first with an error status and a body
  that decodes: the empty envelope.
\<close>

definition second_page_error :: "string \<Rightarrow> nat \<Rightarrow> nat envelope response" where
  "second_page_error e n =
     (if n = 1 then two_pages e 1 else Response False (Some \<lparr>count = 0, results = []\<rparr>))"

text \<open>
  A collation for the examples: the order of the character codes.  More people, and
  upstreams that serve one person (while reporting five), no planets, or two planets.
\<close>

definition sample_compare :: "string \<Rightarrow> string \<Rightarrow> int" where
  "sample_compare a b = (if a < b then - 1 else if a = b then 0 else 1)"

definition luke :: person where
  "luke = \<lparr>name = ''Luke Skywalker'', height = ''172'', mass = ''77'', person_rest = []\<rparr>"




definition one_person :: "string \<Rightarrow> nat \<Rightarrow> person envelope response" where
  "one_person e n = Response True (Some \<lparr>count = 5, results = [leia]\<rparr>)"

definition empty_planets :: "string \<Rightarrow> nat \<Rightarrow> planet envelope response" where
  "empty_planets e n = Response True (Some \<lparr>count = 0, results = []\<rparr>)"

definition two_planets :: "string \<Rightarrow> nat \<Rightarrow> planet envelope response" where
  "two_planets e n = Response True (Some \<lparr>count = 2, results = [alderaan, yavin]\<rparr>)"

definition resolved_planets :: "planet list" where
  "resolved_planets =
     [alderaan\<lparr>residents := [''Leia Organa'', ''Unknown'']\<rparr>, yavin\<lparr>residents := [''Leia Organa'']\<rparr>]"

definition empty_request :: "nat \<Rightarrow> planets_request" where
  "empty_request now =
     \<lparr>planets_pages = empty_planets, planets_links = sample_links,
      planets_now = now, planets_later = now\<rparr>"

definition planets_request_at :: "nat \<Rightarrow> nat \<Rightarrow> planets_request" where
  "planets_request_at now later =
     \<lparr>planets_pages = two_planets, planets_links = sample_links,
      planets_now = now, planets_later = later\<rparr>"

definition cached_people :: "person node_cache" where
  "cached_people = cache_set ''PEOPLE'' [luke, leia] 300 0 myCache"

definition cached_nothing :: "planet node_cache" where
  "cached_nothing = cache_set ''PLANETS'' [] 300 0 myCache"

section \<open>The cross-reference resolver\<close>

lemma residentPromise_fulfils: "residentPromise r i = Inr (i, lookup_name r)"
  by (simp add: residentPromise_def residentTry_def fetch_def json_def lookup_name_def
      split: response.splits option.splits)

lemma promise_all_fulfilled: "promise_all (map (\<lambda>x. Inr (g x)) xs) = Inr (map g xs)"
  by (induction xs) simp_all

lemma groupStep_apply:
  "groupStep acc r i =
     (if fst r = i then Some ((case acc i of None \<Rightarrow> [] | Some ns \<Rightarrow> ns) @ [snd r]) else acc i)"
  by (auto simp: groupStep_def Let_def split: option.splits)

lemma foldl_groupStep:
  "(case foldl groupStep acc rs i of None \<Rightarrow> [] | Some ns \<Rightarrow> ns) =
     (case acc i of None \<Rightarrow> [] | Some ns \<Rightarrow> ns) @ map snd (filter (\<lambda>r. fst r = i) rs)"
proof (induction rs arbitrary: acc)
  case Nil
  show ?case by simp
next
  case (Cons r rs)
  have step: "(case groupStep acc r i of None \<Rightarrow> [] | Some ns \<Rightarrow> ns) =
      (case acc i of None \<Rightarrow> [] | Some ns \<Rightarrow> ns) @ (if fst r = i then [snd r] else [])"
    by (simp add: groupStep_apply)
  show ?case
    unfolding foldl_Cons Cons.IH step by simp
qed

lemma urls_from_Nil: "urls_from n [] = []"
  by (simp add: urls_from_def)

lemma urls_from_Cons:
  "urls_from n (p # ps) = map (\<lambda>u. (n, u)) (residents p) @ urls_from (Suc n) ps"
  by (simp add: urls_from_def)

lemma allResidentUrls_urls_from: "allResidentUrls ps = urls_from 0 ps"
  by (simp add: allResidentUrls_def urls_from_def)

lemma map_snd_urls_from: "map snd (urls_from n ps) = concat (map residents ps)"
  by (induction ps arbitrary: n) (simp_all add: urls_from_Nil urls_from_Cons comp_def)

lemma enumerate_tagged:
  "map f (enumerate k (map (Pair n) us)) =
     map (\<lambda>(j, u). f (k + j, (n, u))) (enumerate 0 us)"
  by (simp add: list_eq_iff_nth_eq nth_enumerate_eq)

lemma results_from_Cons:
  "results_from links k n (p # ps) =
     map (\<lambda>(j, u). (n, lookup_name (links (k + j) u))) (enumerate 0 (residents p))
     @ results_from links (k + length (residents p)) (Suc n) ps"
  by (simp add: results_from_def urls_from_Cons enumerate_append_eq enumerate_tagged)

lemma filter_results_from_below:
  "i < n \<Longrightarrow> filter (\<lambda>r. fst r = i) (results_from links k n ps) = []"
proof (induction ps arbitrary: k n)
  case Nil
  show ?case by (simp add: results_from_def urls_from_Nil)
next
  case (Cons p ps)
  then show ?case
    by (simp add: results_from_Cons filter_map comp_def split_def)
qed

lemma names_of_planet:
  "map snd (filter (\<lambda>r. fst r = n + i) (results_from links k n ps)) =
     (if i < length ps
      then map (\<lambda>(j, u). lookup_name (links (k + lookup_index ps i j) u))
               (enumerate 0 (residents (ps ! i)))
      else [])"
proof (induction ps arbitrary: k n i)
  case Nil
  show ?case by (simp add: results_from_def urls_from_Nil)
next
  case (Cons p ps)
  show ?case
  proof (cases i)
    case 0
    then show ?thesis
      by (simp add: results_from_Cons filter_results_from_below filter_map comp_def split_def
          lookup_index_def)
  next
    case (Suc i')
    have "map snd (filter (\<lambda>r. fst r = Suc n + i')
                     (results_from links (k + length (residents p)) (Suc n) ps)) =
      (if i' < length ps
       then map (\<lambda>(j, u). lookup_name (links (k + length (residents p) + lookup_index ps i' j) u))
                (enumerate 0 (residents (ps ! i')))
       else [])"
      by (rule Cons.IH)
    then show ?thesis using Suc
      by (simp add: results_from_Cons filter_map comp_def split_def lookup_index_def add.assoc)
  qed
qed

text \<open>
  The resolver in closed form: every planet keeps its properties and gets, link by
  link, the name of the lookup issued for that occurrence; the lookups are the links of
  all planets in order.
\<close>

lemma fetchResidents_result:
  "fetchResidentsWithErrorHandling links planets =
     (Inr (map (\<lambda>(i, p). p\<lparr>residents :=
                 map (\<lambda>(j, u). lookup_name (links (lookup_index planets i j) u))
                     (enumerate 0 (residents p))\<rparr>) (enumerate 0 planets)),
      map LinkCall (concat (map residents planets)))"
proof -
  have promises: "map (\<lambda>(i, (planetIndex, u)). residentPromise (links i u) planetIndex)
                (enumerate 0 (allResidentUrls planets)) =
     map (\<lambda>x. Inr ((\<lambda>(i, (planetIndex, u)). (planetIndex, lookup_name (links i u))) x))
                (enumerate 0 (allResidentUrls planets))"
    by (simp add: residentPromise_fulfils split_def)
  have names: "(case foldl groupStep Map.empty (results_from links 0 0 planets) i of
                  None \<Rightarrow> [] | Some ns \<Rightarrow> ns) =
      (if i < length planets
       then map (\<lambda>(j, u). lookup_name (links (lookup_index planets i j) u))
                (enumerate 0 (residents (planets ! i)))
       else [])" for i
    using names_of_planet [of 0 i links 0 planets] by (simp add: foldl_groupStep)
  have calls: "map (\<lambda>(planetIndex, u). LinkCall u) (allResidentUrls planets) =
      map LinkCall (concat (map residents planets))"
  proof -
    have "map (\<lambda>(planetIndex, u). LinkCall u) (allResidentUrls planets) =
        map LinkCall (map snd (urls_from 0 planets))"
      by (simp add: allResidentUrls_urls_from split_def comp_def)
    then show ?thesis
      by (simp only: map_snd_urls_from)
  qed
  show ?thesis
    unfolding fetchResidentsWithErrorHandling_def Let_def promises promise_all_fulfilled calls
    by (simp add: list_eq_iff_nth_eq nth_enumerate_eq names allResidentUrls_urls_from
        flip: results_from_def)
qed

lemma concat_nth_occurrence:
  assumes "i < length xss" "j < length (xss ! i)"
  shows "length (concat (take i xss)) + j < length (concat xss)
     \<and> concat xss ! (length (concat (take i xss)) + j) = xss ! i ! j"
proof -
  have "xss = take i xss @ xss ! i # drop (Suc i) xss"
    using assms(1) by (rule id_take_nth_drop)
  then have "concat xss = concat (take i xss @ xss ! i # drop (Suc i) xss)"
    by simp
  then have split: "concat xss = concat (take i xss) @ xss ! i @ concat (drop (Suc i) xss)"
    by simp
  show ?thesis
    using assms(2) by (subst (1 2) split) (simp add: nth_append)
qed

lemma count_list_LinkCall: "count_list (map LinkCall us) (LinkCall u) = count_list us u"
  by (induction us) simp_all

text \<open>
  Claim C1 says that a link occurring several times in the resident lists is looked up
  once.  The resolver keeps no table of links: with the link \<open>A\<close> under both planets
  it issues two lookups of \<open>A\<close>.
\<close>

theorem shared_link_fetched_twice:
  "count_list (snd (fetchResidentsWithErrorHandling sample_links [alderaan, yavin]))
     (LinkCall ''A'') = 2"
  by (simp add: fetchResidents_result alderaan_def yavin_def)

text \<open>
  Claim C1, amended: the resolver issues one upstream lookup per occurrence of a link.
  The lookups are the resident lists of all records, one after the other, so a link
  that occurs \<open>k\<close> times is fetched \<open>k\<close> times; and every occurrence receives the value
  of its own lookup: the lookup with the number of link \<open>j\<close> of record \<open>i\<close> is a lookup
  of that link, and position \<open>j\<close> of the resident list of record \<open>i\<close> holds the name in
  the answer to that very lookup, or \<open>Unknown\<close> when it failed.
\<close>

theorem one_lookup_per_occurrence:
  "snd (fetchResidentsWithErrorHandling links planets)
     = map LinkCall (concat (map residents planets))
   \<and> count_list (snd (fetchResidentsWithErrorHandling links planets)) (LinkCall u)
       = count_list (concat (map residents planets)) u
   \<and> (\<exists>out. fst (fetchResidentsWithErrorHandling links planets) = Inr out
         \<and> length out = length planets
         \<and> (\<forall>i<length planets.
               length (residents (out ! i)) = length (residents (planets ! i))
             \<and> (\<forall>j<length (residents (planets ! i)).
                   lookup_index planets i j < length (snd (fetchResidentsWithErrorHandling links planets))
                 \<and> snd (fetchResidentsWithErrorHandling links planets) ! lookup_index planets i j
                     = LinkCall (residents (planets ! i) ! j)
                 \<and> residents (out ! i) ! j
                     = lookup_name (links (lookup_index planets i j) (residents (planets ! i) ! j)))))"
proof -
  let ?out = "map (\<lambda>(i, p). p\<lparr>residents :=
                 map (\<lambda>(j, u). lookup_name (links (lookup_index planets i j) u))
                     (enumerate 0 (residents p))\<rparr>) (enumerate 0 planets)"
  let ?calls = "map LinkCall (concat (map residents planets))"
  have res: "fetchResidentsWithErrorHandling links planets = (Inr ?out, ?calls)"
    by (rule fetchResidents_result)
  have log: "snd (fetchResidentsWithErrorHandling links planets) = ?calls"
    by (simp add: res)
  have number: "count_list ?calls (LinkCall u) = count_list (concat (map residents planets)) u"
    by (rule count_list_LinkCall)
  have own: "lookup_index planets i j < length ?calls
      \<and> ?calls ! lookup_index planets i j = LinkCall (residents (planets ! i) ! j)"
    if "i < length planets" "j < length (residents (planets ! i))" for i j
    using concat_nth_occurrence [of i "map residents planets" j] that
    by (simp add: lookup_index_def take_map)
  have "\<forall>i<length planets.
          length (residents (?out ! i)) = length (residents (planets ! i))
        \<and> (\<forall>j<length (residents (planets ! i)).
              lookup_index planets i j < length ?calls
            \<and> ?calls ! lookup_index planets i j = LinkCall (residents (planets ! i) ! j)
            \<and> residents (?out ! i) ! j
                = lookup_name (links (lookup_index planets i j) (residents (planets ! i) ! j)))"
  proof (intro allI impI conjI)
    fix i assume i: "i < length planets"
    then show "length (residents (?out ! i)) = length (residents (planets ! i))"
      by (simp add: nth_enumerate_eq)
    fix j assume j: "j < length (residents (planets ! i))"
    from own [OF i j] show "lookup_index planets i j < length ?calls"
      and "?calls ! lookup_index planets i j = LinkCall (residents (planets ! i) ! j)"
      by blast+
    from i j show "residents (?out ! i) ! j
        = lookup_name (links (lookup_index planets i j) (residents (planets ! i) ! j))"
      by (simp add: nth_enumerate_eq)
  qed
  moreover have "fst (fetchResidentsWithErrorHandling links planets) = Inr ?out"
    by (simp add: res)
  moreover have "length ?out = length planets"
    by simp
  ultimately have "\<exists>out. fst (fetchResidentsWithErrorHandling links planets) = Inr out
         \<and> length out = length planets
         \<and> (\<forall>i<length planets.
               length (residents (out ! i)) = length (residents (planets ! i))
             \<and> (\<forall>j<length (residents (planets ! i)).
                   lookup_index planets i j < length ?calls
                 \<and> ?calls ! lookup_index planets i j = LinkCall (residents (planets ! i) ! j)
                 \<and> residents (out ! i) ! j
                     = lookup_name (links (lookup_index planets i j) (residents (planets ! i) ! j))))"
    by blast
  with number show ?thesis
    unfolding log by blast
qed

theorem one_lookup_per_occurrence_witness:
  "snd (fetchResidentsWithErrorHandling flaky_links [alderaan, yavin])
     = [LinkCall ''A'', LinkCall ''B'', LinkCall ''A'']
   \<and> (\<exists>out. fst (fetchResidentsWithErrorHandling flaky_links [alderaan, yavin]) = Inr out
         \<and> length out = 2
         \<and> residents (out ! 0) = [''Leia Organa'', ''Han Solo'']
         \<and> residents (out ! 1) = [''Unknown''])"
proof -
  note t = one_lookup_per_occurrence [of flaky_links "[alderaan, yavin]" "''A''"]
  have log: "snd (fetchResidentsWithErrorHandling flaky_links [alderaan, yavin])
     = [LinkCall ''A'', LinkCall ''B'', LinkCall ''A'']"
    using t [THEN conjunct1] by (simp add: alderaan_def yavin_def)
  obtain out
    where out: "fst (fetchResidentsWithErrorHandling flaky_links [alderaan, yavin]) = Inr out"
    and len: "length out = length [alderaan, yavin]"
    and pos: "\<forall>i<length [alderaan, yavin].
               length (residents (out ! i)) = length (residents ([alderaan, yavin] ! i))
             \<and> (\<forall>j<length (residents ([alderaan, yavin] ! i)).
                   lookup_index [alderaan, yavin] i j
                     < length (snd (fetchResidentsWithErrorHandling flaky_links [alderaan, yavin]))
                 \<and> snd (fetchResidentsWithErrorHandling flaky_links [alderaan, yavin])
                       ! lookup_index [alderaan, yavin] i j
                     = LinkCall (residents ([alderaan, yavin] ! i) ! j)
                 \<and> residents (out ! i) ! j
                     = lookup_name (flaky_links (lookup_index [alderaan, yavin] i j)
                                      (residents ([alderaan, yavin] ! i) ! j)))"
    using t [THEN conjunct2, THEN conjunct2] by blast
  have l0: "length (residents (out ! 0)) = 2"
    and n00: "residents (out ! 0) ! 0 = ''Leia Organa''"
    and n01: "residents (out ! 0) ! 1 = ''Han Solo''"
    using pos [rule_format, of 0]
    by (simp_all add: alderaan_def All_less_Suc lookup_index_def flaky_links_def lookup_name_def
        leia_def han_def)
  have l1: "length (residents (out ! 1)) = 1"
    and n10: "residents (out ! 1) ! 0 = ''Unknown''"
    using pos [rule_format, of 1]
    by (simp_all add: yavin_def alderaan_def All_less_Suc lookup_index_def flaky_links_def
        lookup_name_def)
  have a: "residents (out ! 0) = [''Leia Organa'', ''Han Solo'']"
    using l0 n00 n01 by (simp add: list_eq_iff_nth_eq less_Suc_eq numeral_2_eq_2)
  have b: "residents (out ! 1) = [''Unknown'']"
    using l1 n10 by (simp add: list_eq_iff_nth_eq)
  from log out len a b show ?thesis by auto
qed

text \<open>
  Claim C4: the resolver never fails.  Whatever the records and whichever lookups fail,
  by a transport error or a status that is not a success, it returns a result, and in
  that result every link whose lookup failed is the string \<open>Unknown\<close>, at the position
  of the link in the resident list of its record.
\<close>

theorem resolver_never_fails:
  "\<exists>out. fst (fetchResidentsWithErrorHandling links planets) = Inr out
     \<and> (\<forall>i<length planets. \<forall>j<length (residents (planets ! i)).
           fetch_fails (links (lookup_index planets i j) (residents (planets ! i) ! j))
           \<longrightarrow> j < length (residents (out ! i)) \<and> residents (out ! i) ! j = ''Unknown'')"
proof -
  let ?out = "map (\<lambda>(i, p). p\<lparr>residents :=
                 map (\<lambda>(j, u). lookup_name (links (lookup_index planets i j) u))
                     (enumerate 0 (residents p))\<rparr>) (enumerate 0 planets)"
  have failed: "fetch_fails r \<Longrightarrow> lookup_name r = ''Unknown''" for r :: "person response"
    by (cases r) (simp_all add: fetch_fails_def lookup_name_def)
  have "fst (fetchResidentsWithErrorHandling links planets) = Inr ?out"
    by (simp add: fetchResidents_result)
  moreover have "\<forall>i<length planets. \<forall>j<length (residents (planets ! i)).
           fetch_fails (links (lookup_index planets i j) (residents (planets ! i) ! j))
           \<longrightarrow> j < length (residents (?out ! i)) \<and> residents (?out ! i) ! j = ''Unknown''"
    by (simp add: nth_enumerate_eq failed)
  ultimately show ?thesis by blast
qed

theorem resolver_never_fails_witness:
  "fetch_fails (sample_links (lookup_index [alderaan, yavin] 0 1) ''B'')
   \<and> (\<exists>out. fst (fetchResidentsWithErrorHandling sample_links [alderaan, yavin]) = Inr out
         \<and> residents (out ! 0) ! 1 = ''Unknown'')"
proof -
  have f: "fetch_fails (sample_links (lookup_index [alderaan, yavin] 0 1) ''B'')"
    by (simp add: fetch_fails_def sample_links_def)
  obtain out
    where out: "fst (fetchResidentsWithErrorHandling sample_links [alderaan, yavin]) = Inr out"
    and unknown: "\<forall>i<length [alderaan, yavin]. \<forall>j<length (residents ([alderaan, yavin] ! i)).
           fetch_fails (sample_links (lookup_index [alderaan, yavin] i j)
                           (residents ([alderaan, yavin] ! i) ! j))
           \<longrightarrow> j < length (residents (out ! i)) \<and> residents (out ! i) ! j = ''Unknown''"
    using resolver_never_fails [of sample_links "[alderaan, yavin]"] by blast
  have "residents (out ! 0) ! 1 = ''Unknown''"
    using unknown [rule_format, of 0 1] f by (simp add: alderaan_def)
  with f out show ?thesis by blast
qed

text \<open>
  Claim C6: the resolver returns as many records as it was given; the resident list of
  each record has the length of its list of links; position \<open>j\<close> holds the name that
  the lookup issued for link \<open>j\<close> of that record resolved to, so order and multiplicity
  are those of the links; and a record differs from the original in its resident list
  only.
\<close>

theorem resolver_positional:
  "\<exists>out. fst (fetchResidentsWithErrorHandling links planets) = Inr out
     \<and> length out = length planets
     \<and> (\<forall>i<length planets.
           length (residents (out ! i)) = length (residents (planets ! i))
         \<and> out ! i = (planets ! i)\<lparr>residents := residents (out ! i)\<rparr>
         \<and> (\<forall>j<length (residents (planets ! i)).
               residentPromise (links (lookup_index planets i j) (residents (planets ! i) ! j)) i
                 = Inr (i, residents (out ! i) ! j)))"
proof -
  let ?out = "map (\<lambda>(i, p). p\<lparr>residents :=
                 map (\<lambda>(j, u). lookup_name (links (lookup_index planets i j) u))
                     (enumerate 0 (residents p))\<rparr>) (enumerate 0 planets)"
  have "fst (fetchResidentsWithErrorHandling links planets) = Inr ?out"
    by (simp add: fetchResidents_result)
  moreover have "length ?out = length planets"
    by simp
  moreover have "\<forall>i<length planets.
           length (residents (?out ! i)) = length (residents (planets ! i))
         \<and> ?out ! i = (planets ! i)\<lparr>residents := residents (?out ! i)\<rparr>
         \<and> (\<forall>j<length (residents (planets ! i)).
               residentPromise (links (lookup_index planets i j) (residents (planets ! i) ! j)) i
                 = Inr (i, residents (?out ! i) ! j))"
    by (simp add: nth_enumerate_eq residentPromise_fulfils)
  ultimately show ?thesis by blast
qed

theorem resolver_positional_witness:
  "\<exists>out. fst (fetchResidentsWithErrorHandling sample_links [alderaan, yavin]) = Inr out
     \<and> length out = 2
     \<and> residents (out ! 0) = [''Leia Organa'', ''Unknown'']
     \<and> planet_rest (out ! 0) = [(''name'', ''Alderaan'')]
     \<and> residents (out ! 1) = [''Leia Organa'']"
proof -
  obtain out
    where out: "fst (fetchResidentsWithErrorHandling sample_links [alderaan, yavin]) = Inr out"
    and len: "length out = length [alderaan, yavin]"
    and pos: "\<forall>i<length [alderaan, yavin].
           length (residents (out ! i)) = length (residents ([alderaan, yavin] ! i))
         \<and> out ! i = ([alderaan, yavin] ! i)\<lparr>residents := residents (out ! i)\<rparr>
         \<and> (\<forall>j<length (residents ([alderaan, yavin] ! i)).
               residentPromise (sample_links (lookup_index [alderaan, yavin] i j)
                                  (residents ([alderaan, yavin] ! i) ! j)) i
                 = Inr (i, residents (out ! i) ! j))"
    using resolver_positional [of sample_links "[alderaan, yavin]"] by blast
  have p: "residentPromise (sample_links k ''A'') i = Inr (i, ''Leia Organa'')"
      "residentPromise (sample_links k ''B'') i = Inr (i, ''Unknown'')" for k i
    by (simp_all add: residentPromise_def residentTry_def fetch_def json_def sample_links_def
        leia_def)
  have l0: "length (residents (out ! 0)) = 2"
    and r0: "out ! 0 = alderaan\<lparr>residents := residents (out ! 0)\<rparr>"
    and n00: "residents (out ! 0) ! 0 = ''Leia Organa''"
    and n01: "residents (out ! 0) ! 1 = ''Unknown''"
    using pos [rule_format, of 0] p [symmetric]
    by (simp_all add: alderaan_def All_less_Suc lookup_index_def)
  have l1: "length (residents (out ! 1)) = 1"
    and n10: "residents (out ! 1) ! 0 = ''Leia Organa''"
    using pos [rule_format, of 1] p [symmetric]
    by (simp_all add: yavin_def alderaan_def All_less_Suc lookup_index_def)
  have a: "residents (out ! 0) = [''Leia Organa'', ''Unknown'']"
    using l0 n00 n01 by (simp add: list_eq_iff_nth_eq less_Suc_eq numeral_2_eq_2)
  have b: "residents (out ! 1) = [''Leia Organa'']"
    using l1 n10 by (simp add: list_eq_iff_nth_eq)
  have c: "planet_rest (out ! 0) = [(''name'', ''Alderaan'')]"
    by (subst r0) (simp add: alderaan_def)
  from out len a b c show ?thesis by auto
qed

section \<open>The full-collection fetch\<close>

lemma promise_all_map_Inr_id: "promise_all (map Inr xs) = Inr xs"
  by (induction xs) simp_all

lemma promise_all_Inr_D: "promise_all ps = Inr xs \<Longrightarrow> ps = map Inr xs"
  by (induction ps arbitrary: xs rule: promise_all.induct) (auto split: sum.splits)

lemma promise_all_Inr_iff: "promise_all ps = Inr xs \<longleftrightarrow> ps = map Inr xs"
  using promise_all_Inr_D promise_all_map_Inr_id by blast

lemma promise_all_Inl: "promise_all ps = Inl e \<Longrightarrow> Inl e \<in> set ps"
  by (induction ps rule: promise_all.induct) (auto split: sum.splits)

lemma promise_all_rejects: "Inl e \<in> set ps \<Longrightarrow> \<exists>e'. promise_all ps = Inl e'"
  by (induction ps rule: promise_all.induct) (auto split: sum.splits)

lemma promise_all_map_Inr:
  "(\<And>x. x \<in> set xs \<Longrightarrow> f x = Inr (g x)) \<Longrightarrow> promise_all (map f xs) = Inr (map g xs)"
  by (simp add: promise_all_Inr_iff)

lemma fetch_Inl: "fetch r = Inl e \<Longrightarrow> e = FetchFailed \<and> r = Rejected"
  by (cases r) (simp_all add: fetch_def)

lemma json_Inl: "json r = Inl e \<Longrightarrow> e = JsonSyntaxError \<and> snd r = None"
  by (cases "snd r") (simp_all add: json_def)

lemma fetchAllPages_first_fails:
  assumes "page_fails (upstream e 1)"
  shows "\<exists>err. fst (fetchAllPages pageSize upstream e) = Inl err \<and> upstream_unavailable err"
  using assms
  by (cases "upstream e 1")
     (auto simp: fetchAllPages_def page_fails_def fetch_def json_def upstream_unavailable_def)

lemma fetchAllPages_more:
  assumes first: "upstream e 1 = Response ok (Some env)"
    and rem: "remainingPages (count env) pageSize = Finite n"
    and n: "0 < n" "n \<le> max_array_length"
  shows "fetchAllPages pageSize upstream e =
      (case promise_all (map (\<lambda>p. fetch (upstream e p)) (map (\<lambda>i. i + 2) [0..<nat n])) of
         Inl e' \<Rightarrow> (Inl e', PageCall e 1 # map (PageCall e) (map (\<lambda>i. i + 2) [0..<nat n]))
       | Inr responses \<Rightarrow>
          (case promise_all (map json responses) of
             Inl e' \<Rightarrow> (Inl e', PageCall e 1 # map (PageCall e) (map (\<lambda>i. i + 2) [0..<nat n]))
           | Inr data \<Rightarrow> (Inr (results env @ concat (map results data)),
                PageCall e 1 # map (PageCall e) (map (\<lambda>i. i + 2) [0..<nat n]))))"
proof -
  have a: "fetch (upstream e 1) = Inr (ok, Some env)"
    using first by (simp add: fetch_def)
  have b: "json (ok, Some env) = Inr env"
    by (simp add: json_def)
  have c: "(n > 0) = True" "(n > max_array_length) = False"
    using n by simp_all
  show ?thesis
    unfolding fetchAllPages_def Let_def
    by (simp only: a b rem sum.case js_number.case c if_True if_False)
qed

lemma fetchAllPages_remaining_fails:
  assumes first: "upstream e 1 = Response ok (Some env)"
    and k: "k \<in> set (remaining_page_numbers pageSize (count env))"
    and fails: "page_fails (upstream e k)"
  shows "\<exists>err. fst (fetchAllPages pageSize upstream e) = Inl err \<and> upstream_unavailable err"
proof -
  obtain n where n: "remainingPages (count env) pageSize = Finite n"
    "0 < n" "n \<le> max_array_length" and kin: "k \<in> set (map (\<lambda>i. i + 2) [0..<nat n])"
  proof (cases "remainingPages (count env) pageSize")
    case NaN
    with k show ?thesis by (simp add: remaining_page_numbers_def)
  next
    case PosInfinity
    with k show ?thesis by (simp add: remaining_page_numbers_def)
  next
    case (Finite n)
    with k that show ?thesis
      by (cases "0 < n \<and> n \<le> max_array_length") (simp_all add: remaining_page_numbers_def)
  qed
  let ?pages = "map (\<lambda>i. i + 2) [0..<nat n]"
  let ?requests = "map (\<lambda>p. fetch (upstream e p)) ?pages"
  note unfold = fetchAllPages_more [of upstream e ok env pageSize n, OF first n]
  show ?thesis
  proof (cases "promise_all ?requests")
    case (Inl e')
    then have "Inl e' \<in> set ?requests" by (rule promise_all_Inl)
    then have "e' = FetchFailed" by (auto dest: fetch_Inl [OF sym])
    with Inl show ?thesis by (simp only: unfold sum.case fst_conv) (simp add: upstream_unavailable_def)
  next
    case (Inr responses)
    then have resp: "?requests = map Inr responses" by (simp add: promise_all_Inr_iff)
    have "fetch (upstream e k) \<in> set ?requests" using kin by auto
    then obtain r where r: "r \<in> set responses" "fetch (upstream e k) = Inr r"
      unfolding resp by auto
    with fails have "snd r = None"
      by (cases "upstream e k") (auto simp: fetch_def page_fails_def)
    then have "json r = Inl JsonSyntaxError" by (simp add: json_def)
    with r have "Inl JsonSyntaxError \<in> set (map json responses)" by force
    then obtain e' where e': "promise_all (map json responses) = Inl e'"
      using promise_all_rejects by blast
    then have "Inl e' \<in> set (map json responses)" by (rule promise_all_Inl)
    then have "e' = JsonSyntaxError" by (auto dest: json_Inl [OF sym])
    with e' Inr show ?thesis by (simp only: unfold sum.case fst_conv) (simp add: upstream_unavailable_def)
  qed
qed

lemma concat_pages:
  "concat (map (\<lambda>n. take p (drop (n * p) xs)) [0..<N]) = take (N * p) xs"
proof (induction N)
  case 0
  show ?case by simp
next
  case (Suc N)
  have "take (N * p + p) xs = take (N * p) xs @ take p (drop (N * p) xs)"
    by (rule take_add)
  with Suc show ?case by (simp add: add.commute)
qed

lemma pages_cover:
  assumes "0 < p"
  shows "length xs \<le> ((length xs + p - 1) div p) * p"
proof -
  have "length xs + p - 1 < ((length xs + p - 1) div p) * p + p"
    using assms by (metis div_mult_mod_eq mod_less_divisor nat_add_left_cancel_less)
  then show ?thesis using assms by linarith
qed

lemma fetchAllPages_complete:
  assumes size: "0 < pageSize"
    and served: "\<forall>n. 1 \<le> n \<and> n \<le> page_count pageSize (length xs)
                   \<longrightarrow> upstream e n = Response True (Some (page_of pageSize xs n))"
    and bound: "int (page_count pageSize (length xs)) - 1 \<le> max_array_length"
  shows "fetchAllPages pageSize upstream e
           = (Inr xs, map (PageCall e) [1..<Suc (page_count pageSize (length xs))])"
proof -
  let ?N = "(length xs + pageSize - 1) div pageSize"
  have first: "upstream e 1 = Response True (Some (page_of pageSize xs 1))"
    using served by (simp add: page_count_def)
  have rem: "remainingPages (length xs) pageSize = Finite (int ?N - 1)"
    using size by (simp add: remainingPages_def)
  show ?thesis
  proof (cases "1 < ?N")
    case False
    then have "length xs \<le> pageSize"
      using pages_cover [OF size, of xs] 
      by (metis One_nat_def le_trans linorder_not_less mult_le_mono1 nat_mult_1)
    moreover have "page_count pageSize (length xs) = 1"
      using False by (simp add: page_count_def)
    ultimately show ?thesis
      using False first rem
      by (simp add: fetchAllPages_def fetch_def json_def page_of_def)
  next
    case True
    then have pc: "page_count pageSize (length xs) = ?N"
      by (simp add: page_count_def)
    let ?pages = "map (\<lambda>i. i + 2) [0..<nat (int ?N - 1)]"
    have pages: "?pages = [2..<Suc ?N]"
    proof -
      have "nat (int ?N - 1) = ?N - 1" by simp
      then have "?pages = [2..<?N - 1 + 2]" by (simp only: map_add_upt)
      then show ?thesis using True by simp
    qed
    have fetched: "promise_all (map (\<lambda>p. fetch (upstream e p)) ?pages)
        = Inr (map (\<lambda>p. (True, Some (page_of pageSize xs p))) ?pages)"
    proof (rule promise_all_map_Inr)
      fix p assume "p \<in> set ?pages"
      then have "p \<in> set [2..<Suc ?N]" unfolding pages .
      then have "1 \<le> p \<and> p \<le> ?N" by auto
      with served pc show "fetch (upstream e p) = Inr (True, Some (page_of pageSize xs p))"
        by (simp add: fetch_def)
    qed
    have decoded: "promise_all (map json (map (\<lambda>p. (True, Some (page_of pageSize xs p))) ?pages))
        = Inr (map (page_of pageSize xs) ?pages)"
      by (simp add: promise_all_Inr_iff json_def comp_def)
    have chunks: "map results (map (page_of pageSize xs) [1..<Suc ?N])
        = map (\<lambda>n. take pageSize (drop (n * pageSize) xs)) [0..<?N]"
      by (simp add: list_eq_iff_nth_eq page_of_def del: upt_Suc)
    have split: "[1..<Suc ?N] = 1 # [2..<Suc ?N]"
      using True by (simp add: upt_conv_Cons numeral_2_eq_2)
    have "results (page_of pageSize xs 1) @ concat (map results (map (page_of pageSize xs) ?pages))
        = concat (map results (map (page_of pageSize xs) [1..<Suc ?N]))"
      unfolding pages split by simp
    also have "\<dots> = take (?N * pageSize) xs"
      unfolding chunks by (rule concat_pages)
    also have "\<dots> = xs"
      using pages_cover [OF size, of xs] by simp
    finally have all: "results (page_of pageSize xs 1)
        @ concat (map results (map (page_of pageSize xs) ?pages)) = xs" .
    have calls: "PageCall e 1 # map (PageCall e) ?pages = map (PageCall e) [1..<Suc ?N]"
      unfolding pages split by simp
    have n: "0 < int ?N - 1" "int ?N - 1 \<le> max_array_length"
      using True bound pc by simp_all
    have cnt: "remainingPages (count (page_of pageSize xs 1)) pageSize = Finite (int ?N - 1)"
      using rem by (simp add: page_of_def)
    show ?thesis
      unfolding pc fetchAllPages_more [of upstream e True "page_of pageSize xs 1" pageSize
          "int ?N - 1", OF first cnt n] fetched sum.case decoded all calls
      by (rule refl)
  qed
qed


lemma concat_all_pages:
  assumes "0 < pageSize"
  shows "concat (map (\<lambda>n. results (page_of pageSize xs n)) [1..<Suc (page_count pageSize (length xs))]) = xs"
proof -
  let ?N = "page_count pageSize (length xs)"
  have "map (\<lambda>n. results (page_of pageSize xs n)) [1..<Suc ?N]
      = map (\<lambda>n. take pageSize (drop (n * pageSize) xs)) [0..<?N]"
    by (simp add: list_eq_iff_nth_eq page_of_def del: upt_Suc)
  then have "concat (map (\<lambda>n. results (page_of pageSize xs n)) [1..<Suc ?N])
      = take (?N * pageSize) xs"
    by (simp only: concat_pages)
  moreover have "length xs \<le> ?N * pageSize"
  proof -
    have "((length xs + pageSize - 1) div pageSize) * pageSize \<le> ?N * pageSize"
      by (simp add: page_count_def)
    with pages_cover [OF assms, of xs] show ?thesis by linarith
  qed
  ultimately show ?thesis by simp
qed

text \<open>
  Claim C3: let the upstream serve a collection \<open>xs\<close> in pages of the configured page
  size, each page reporting the total count \<open>length xs\<close>, over \<open>N \<ge> 1\<close> pages (no more
  than an array can index).  Then \<open>fetchAllPages\<close> requests each of the pages once and
  returns \<open>xs\<close> itself: the concatenation of the pages in page order, every page in its
  own order, as many records as the reported count, none twice and none left out.
\<close>

theorem fetchAll_returns_whole_collection:
  assumes size: "0 < pageSize"
    and served: "\<forall>n. 1 \<le> n \<and> n \<le> page_count pageSize (length xs)
                   \<longrightarrow> upstream e n = Response True (Some (page_of pageSize xs n))"
    and bound: "int (page_count pageSize (length xs)) - 1 \<le> max_array_length"
  shows "fst (fetchAllPages pageSize upstream e) = Inr xs
       \<and> xs = concat (map (\<lambda>n. results (page_of pageSize xs n))
                          [1..<Suc (page_count pageSize (length xs))])
       \<and> length xs = count (page_of pageSize xs 1)
       \<and> snd (fetchAllPages pageSize upstream e)
           = map (PageCall e) [1..<Suc (page_count pageSize (length xs))]"
  using fetchAllPages_complete [of pageSize xs upstream e, OF assms]
    concat_all_pages [OF size, of xs]
  by (simp add: page_of_def)

theorem fetchAll_returns_whole_collection_witness:
  "(0::nat) < 10
   \<and> page_count 10 (length thirteen) = 2
   \<and> two_pages ''people'' 1 = Response True (Some (page_of 10 thirteen 1))
   \<and> two_pages ''people'' 2 = Response True (Some (page_of 10 thirteen 2))
   \<and> fst (fetchAllPages 10 two_pages ''people'') = Inr thirteen
   \<and> snd (fetchAllPages 10 two_pages ''people'') = [PageCall ''people'' 1, PageCall ''people'' 2]"
proof -
  have pc: "page_count 10 (length thirteen) = 2"
    by (simp add: page_count_def thirteen_def)
  have p1: "two_pages ''people'' 1 = Response True (Some (page_of 10 thirteen 1))"
    by (simp add: two_pages_def page_of_def thirteen_def)
  have p2: "two_pages ''people'' 2 = Response True (Some (page_of 10 thirteen 2))"
    by (simp add: two_pages_def page_of_def thirteen_def)
  have served: "\<forall>n. 1 \<le> n \<and> n \<le> page_count 10 (length thirteen)
      \<longrightarrow> two_pages ''people'' n = Response True (Some (page_of 10 thirteen n))"
  proof (intro allI impI)
    fix n :: nat assume "1 \<le> n \<and> n \<le> page_count 10 (length thirteen)"
    then have "n = 1 \<or> n = 2" unfolding pc by auto
    with p1 p2 show "two_pages ''people'' n = Response True (Some (page_of 10 thirteen n))"
      by auto
  qed
  have bound: "int (page_count 10 (length thirteen)) - 1 \<le> max_array_length"
    unfolding pc by (simp add: max_array_length_def)
  have upt: "[1..<Suc 2] = [1, 2]"
    by (simp add: upt_conv_Cons)
  show ?thesis
    using fetchAll_returns_whole_collection [of 10 thirteen two_pages "''people''",
        OF _ served bound] pc p1 p2 upt
    by simp
qed

text \<open>
  Rejections are all or nothing: if \<^verbatim>\<open>fetch\<close> or the decoding of the body rejects
  for the first page, or for any of the remaining pages, then \<open>fetchAllPages\<close> fails as
  a whole and returns no collection, partial or other.
\<close>

lemma page_failure_fails_whole_fetch:
  assumes "page_fails (upstream e 1)
         \<or> (\<exists>ok env k. upstream e 1 = Response ok (Some env)
               \<and> k \<in> set (remaining_page_numbers pageSize (count env))
               \<and> page_fails (upstream e k))"
  shows "\<exists>err. fst (fetchAllPages pageSize upstream e) = Inl err \<and> upstream_unavailable err"
  using assms fetchAllPages_first_fails fetchAllPages_remaining_fails by blast

lemma page_failure_fails_whole_fetch_example:
  "second_page_down ''people'' 1 = Response True (Some \<lparr>count = 13, results = [1, 2, 3, 4, 5, 6, 7, 8, 9, 10]\<rparr>)
   \<and> remaining_page_numbers 10 13 = [2]
   \<and> page_fails (second_page_down ''people'' 2)
   \<and> fst (fetchAllPages 10 second_page_down ''people'') = Inl FetchFailed
   \<and> upstream_unavailable FetchFailed"
proof -
  have first: "second_page_down ''people'' 1
      = Response True (Some \<lparr>count = 13, results = [1, 2, 3, 4, 5, 6, 7, 8, 9, 10]\<rparr>)"
    by (simp add: second_page_down_def two_pages_def)
  have pages: "remaining_page_numbers 10 13 = [2]"
    by (simp add: remaining_page_numbers_def remainingPages_def max_array_length_def)
  have fails: "page_fails (second_page_down ''people'' 2)"
    by (simp add: second_page_down_def page_fails_def)
  have "\<exists>ok env k. second_page_down ''people'' 1 = Response ok (Some env)
               \<and> k \<in> set (remaining_page_numbers 10 (count env))
               \<and> page_fails (second_page_down ''people'' k)"
    using first pages fails by (intro exI [of _ True] exI [of _ "\<lparr>count = 13, results = [1, 2, 3, 4, 5, 6, 7, 8, 9, 10]\<rparr>"] exI [of _ 2]) simp
  then obtain err where err: "fst (fetchAllPages 10 second_page_down ''people'') = Inl err"
      "upstream_unavailable err"
    using page_failure_fails_whole_fetch [of second_page_down "''people''" 10] by blast
  have "fst (fetchAllPages 10 second_page_down ''people'') = Inl FetchFailed"
    by (simp add: fetchAllPages_def second_page_down_def two_pages_def fetch_def json_def
        remainingPages_def max_array_length_def)
  with first pages fails err show ?thesis by simp
qed

text \<open>
  Claim C5 asks that the failure of any page fetch fails the whole fetch, so that no
  partial collection is returned.  \<open>fetchAllPages\<close> never examines the status of a
  response, as \<open>fetchResidentsWithErrorHandling\<close> does with \<^verbatim>\<open>response.ok\<close>.  Here
  the second of two pages is answered with an error status and a body that decodes: the
  fetch of that page has failed, and \<open>fetchAllPages\<close> returns the ten records of the
  first page as the collection of thirteen.
\<close>

theorem failed_page_is_used_as_data:
  "two_pages ''people'' 1
     = Response True (Some \<lparr>count = 13, results = [1, 2, 3, 4, 5, 6, 7, 8, 9, 10]\<rparr>)
   \<and> second_page_error ''people'' 1 = two_pages ''people'' 1
   \<and> second_page_error ''people'' 2 = Response False (Some \<lparr>count = 0, results = []\<rparr>)
   \<and> fetch_fails (second_page_error ''people'' 2)
   \<and> fetchAllPages 10 second_page_error ''people''
       = (Inr [1, 2, 3, 4, 5, 6, 7, 8, 9, 10], [PageCall ''people'' 1, PageCall ''people'' 2])"
  by (simp add: fetchAllPages_def second_page_error_def two_pages_def fetch_def json_def
      remainingPages_def max_array_length_def fetch_fails_def)

section \<open>The sort step\<close>


lemma js_sorted_Nil: "js_sorted cmp [] = []"
  by (simp add: js_sorted_def)

lemma js_sorted_Cons: "js_sorted cmp (x # xs) = js_insert cmp x (js_sorted cmp xs)"
  by (simp add: js_sorted_def)

lemma length_js_insert: "length (js_insert cmp x ys) = Suc (length ys)"
  by (induction ys) simp_all



lemma length_js_sorted: "length (js_sorted cmp xs) = length xs"
  by (induction xs) (simp_all add: js_sorted_Nil js_sorted_Cons length_js_insert)























text \<open>
  Claim C2 says that the sort step returns a new sequence and leaves its input
  unchanged.  \<^verbatim>\<open>people.sort(...)\<close> sorts the array it is called on: the step returns
  the reference it was given, and the array behind it has been reordered.
\<close>

theorem sort_stage_overwrites_its_input:
  "sort_stage sample_compare (Str ''name'') (Str ''asc'') 0 [[luke, leia]] = (0, [[leia, luke]])"
  by (simp add: sort_stage_def array_sort_def js_sorted_def compare_people_def person_prop_def
      sample_compare_def luke_def leia_def)

section \<open>The cache and the two endpoints\<close>

lemma fetchAllPages_calls: "\<exists>cs. snd (fetchAllPages pageSize upstream e) = PageCall e 1 # cs"
  by (simp add: fetchAllPages_def Let_def split: sum.splits js_number.splits)

lemma fresh_iff:
  "fresh key now cache
     \<longleftrightarrow> (\<exists>e. cache key = Some e \<and> v e \<noteq> [] \<and> \<not> (t e \<noteq> 0 \<and> t e < now))"
  by (auto simp: fresh_def split: option.splits)

lemma cache_get_fresh:
  "fresh key now cache \<Longrightarrow> cache_get key now cache = (Some (v (the (cache key))), cache)"
  by (auto simp: fresh_iff cache_get_def)

lemma cache_get_stale:
  "\<not> fresh key now cache \<Longrightarrow>
     (fst (cache_get key now cache) = None \<or> fst (cache_get key now cache) = Some [])
     \<and> (snd (cache_get key now cache) = cache \<or> snd (cache_get key now cache) = cache(key := None))"
  by (auto simp: fresh_def cache_get_def split: option.splits)

lemma cache_set_after_get:
  "cache_set key xs ttl later (snd (cache_get key now cache)) = cache_set key xs ttl later cache"
  by (auto simp: cache_get_def cache_set_def split: option.splits)

lemma get_planets_fresh:
  assumes "fresh ''PLANETS'' now cache"
  shows "get_planets pageSize upstream links now later cache
     = (Ok (length (v (the (cache ''PLANETS'')))) (v (the (cache ''PLANETS''))), cache, [])"
proof -
  from assms have "v (the (cache ''PLANETS'')) \<noteq> []" by (auto simp: fresh_iff)
  then show ?thesis
    by (simp add: get_planets_def cache_get_fresh [OF assms] Let_def)
qed

lemma get_planets_stale:
  assumes "\<not> fresh ''PLANETS'' now cache"
  shows "get_planets pageSize upstream links now later cache
     = (reply_of (fst (fetch_and_resolve pageSize upstream links)),
        (case fst (fetch_and_resolve pageSize upstream links) of
           Inl e \<Rightarrow> snd (cache_get ''PLANETS'' now cache)
         | Inr planets \<Rightarrow> cache_set ''PLANETS'' planets 300 later cache),
        snd (fetch_and_resolve pageSize upstream links))"
proof -
  obtain cached cache1 where g: "cache_get ''PLANETS'' now cache = (cached, cache1)"
    by (cases "cache_get ''PLANETS'' now cache")
  with cache_get_stale [OF assms] have c: "cached = None \<or> cached = Some []" by simp
  have s: "cache_set ''PLANETS'' xs 300 later cache1 = cache_set ''PLANETS'' xs 300 later cache" for xs
    using cache_set_after_get [of "''PLANETS''" xs 300 later now cache] g by simp
  from c show ?thesis
    by (auto simp: get_planets_def g s fetch_and_resolve_def reply_of_def
        split: prod.splits sum.splits)
qed


lemma fresh_after_set:
  "xs \<noteq> [] \<Longrightarrow> now \<le> later + 300000
     \<Longrightarrow> fresh key now (cache_set key xs 300 later cache)"
  by (simp add: fresh_def cache_set_def)

lemma stale_after_set:
  "later + 300000 < now \<Longrightarrow> \<not> fresh key now (cache_set key xs 300 later cache)"
  by (simp add: fresh_def cache_set_def)

lemma serve_planets_append:
  "serve_planets pageSize (rs @ rs') cache =
     (fst (serve_planets pageSize rs cache)
        @ fst (serve_planets pageSize rs' (snd (serve_planets pageSize rs cache))),
      snd (serve_planets pageSize rs' (snd (serve_planets pageSize rs cache))))"
  by (induction rs arbitrary: cache) (simp_all add: split_def Let_def)

lemma serve_planets_fresh:
  assumes "\<forall>r\<in>set rs. fresh ''PLANETS'' (planets_now r) cache"
  shows "serve_planets pageSize rs cache =
     (replicate (length rs)
        (Ok (length (v (the (cache ''PLANETS'')))) (v (the (cache ''PLANETS''))), []), cache)"
  using assms by (induction rs) (simp_all add: get_planets_fresh)

lemma get_people_invalid:
  assumes "\<not> sort_params_valid q"
  shows "\<exists>msg. get_people pageSize localeCompare upstream q now later cache
           = (Failure 400 msg, cache, [])"
  using assms by (auto simp: get_people_def sort_params_valid_def Let_def)

lemma people_sorted_alloc:
  "people_sorted localeCompare sortBy sortOrder (length h) (h @ [xs])
     = Ok (length xs) (js_sorted (compare_people localeCompare sortBy sortOrder) xs)"
  by (simp add: people_sorted_def sort_stage_def array_sort_def length_js_sorted)

lemma get_people_fresh:
  assumes valid: "sort_params_valid q" and hit: "fresh ''PEOPLE'' now cache"
  shows "get_people pageSize localeCompare upstream q now later cache
     = (Ok (length (v (the (cache ''PEOPLE''))))
          (js_sorted (people_comparator localeCompare q) (v (the (cache ''PEOPLE'')))),
        cache, [])"
proof -
  from hit have "v (the (cache ''PEOPLE'')) \<noteq> []" by (auto simp: fresh_iff)
  then show ?thesis
    using valid people_sorted_alloc [of localeCompare _ _ "[]"]
    by (simp add: get_people_def cache_get_fresh [OF hit] Let_def sort_params_valid_def
        alloc_def people_comparator_def)
qed

lemma get_people_stale:
  assumes valid: "sort_params_valid q" and miss: "\<not> fresh ''PEOPLE'' now cache"
  shows "get_people pageSize localeCompare upstream q now later cache
     = (case fst (fetchAllPages pageSize upstream ''people'') of
          Inl e \<Rightarrow> (Failure 500 ''Internal server error'',
                    snd (cache_get ''PEOPLE'' now cache),
                    snd (fetchAllPages pageSize upstream ''people''))
        | Inr fetched \<Rightarrow>
            (Ok (length fetched) (js_sorted (people_comparator localeCompare q) fetched),
             cache_set ''PEOPLE'' fetched 300 later cache,
             snd (fetchAllPages pageSize upstream ''people'')))"
proof -
  obtain cached cache1 where g: "cache_get ''PEOPLE'' now cache = (cached, cache1)"
    by (cases "cache_get ''PEOPLE'' now cache")
  with cache_get_stale [OF miss] have c: "cached = None \<or> cached = Some []" by simp
  have s: "cache_set ''PEOPLE'' xs 300 later cache1 = cache_set ''PEOPLE'' xs 300 later cache" for xs
    using cache_set_after_get [of "''PEOPLE''" xs 300 later now cache] g by simp
  have sorted: "people_sorted localeCompare sortBy sortOrder (Suc 0) [[], xs]
     = Ok (length xs) (js_sorted (compare_people localeCompare sortBy sortOrder) xs)"
    for sortBy sortOrder xs
    using people_sorted_alloc [of localeCompare sortBy sortOrder "[[]]" xs] by simp
  from c valid show ?thesis
    by (auto simp: get_people_def g s Let_def sort_params_valid_def alloc_def sorted
        people_comparator_def split: prod.splits sum.splits)
qed

lemma get_people_calls:
  assumes "sort_params_valid q"
  shows "snd (snd (get_people pageSize localeCompare upstream q now later cache)) = []
     \<longleftrightarrow> fresh ''PEOPLE'' now cache"
proof (cases "fresh ''PEOPLE'' now cache")
  case True
  then show ?thesis by (simp add: get_people_fresh [OF assms])
next
  case False
  then show ?thesis
    using fetchAllPages_calls [of pageSize upstream "''people''"]
    by (auto simp: get_people_stale [OF assms] split: sum.splits)
qed

lemma get_planets_calls:
  "snd (snd (get_planets pageSize upstream links now later cache)) = []
     \<longleftrightarrow> fresh ''PLANETS'' now cache"
proof (cases "fresh ''PLANETS'' now cache")
  case True
  then show ?thesis by (simp add: get_planets_fresh)
next
  case False
  then show ?thesis
    using fetchAllPages_calls [of pageSize upstream "''planets''"]
    by (auto simp: get_planets_stale fetch_and_resolve_def split: sum.splits prod.splits)
qed

lemma get_planets_count:
  "fst (get_planets pageSize upstream links now later cache) = Ok n xs \<Longrightarrow> n = length xs"
  by (cases "fresh ''PLANETS'' now cache")
     (auto simp: get_planets_fresh get_planets_stale reply_of_def split: sum.splits)

lemma get_people_count:
  "fst (get_people pageSize localeCompare upstream q now later cache) = Ok n xs \<Longrightarrow> n = length xs"
proof (cases "sort_params_valid q")
  case False
  assume "fst (get_people pageSize localeCompare upstream q now later cache) = Ok n xs"
  with get_people_invalid [OF False, of pageSize localeCompare upstream now later cache]
  show ?thesis by auto
next
  case True
  assume "fst (get_people pageSize localeCompare upstream q now later cache) = Ok n xs"
  then show ?thesis
    by (cases "fresh ''PEOPLE'' now cache")
       (auto simp: get_people_fresh [OF True] get_people_stale [OF True] length_js_sorted
          split: sum.splits)
qed

lemma fetchAllPages_empty:
  assumes "upstream e 1 = Response True (Some \<lparr>count = 0, results = []\<rparr>)"
  shows "fetchAllPages pageSize upstream e = (Inr [], [PageCall e 1])"
  using assms by (simp add: fetchAllPages_def fetch_def json_def remainingPages_def)

lemma fetchResidents_Nil: "fetchResidentsWithErrorHandling links [] = (Inr [], [])"
  by (simp add: fetchResidents_result)

lemma holds_nothing_stale: "holds_nothing key cache \<Longrightarrow> \<not> fresh key now cache"
  by (auto simp: holds_nothing_def fresh_iff)

lemma holds_nothing_set: "holds_nothing key (cache_set key [] ttl later cache)"
  by (simp add: holds_nothing_def cache_set_def)

lemma get_planets_empty:
  assumes "holds_nothing ''PLANETS'' cache"
    and "upstream ''planets'' 1 = Response True (Some \<lparr>count = 0, results = []\<rparr>)"
  shows "get_planets pageSize upstream links now later cache
     = (Ok 0 [], cache_set ''PLANETS'' [] 300 later cache, [PageCall ''planets'' 1])"
  using assms
  by (simp add: get_planets_stale holds_nothing_stale fetch_and_resolve_def fetchAllPages_empty
      fetchResidents_Nil reply_of_def)

lemma get_people_empty:
  assumes "sort_params_valid q" "holds_nothing ''PEOPLE'' cache"
    and "upstream ''people'' 1 = Response True (Some \<lparr>count = 0, results = []\<rparr>)"
  shows "get_people pageSize localeCompare upstream q now later cache
     = (Ok 0 [], cache_set ''PEOPLE'' [] 300 later cache, [PageCall ''people'' 1])"
  using assms
  by (simp add: get_people_stale holds_nothing_stale fetchAllPages_empty js_sorted_Nil)

lemma serve_planets_empty:
  assumes "holds_nothing ''PLANETS'' cache"
    and "\<forall>r\<in>set rs. planets_pages r ''planets'' 1 = Response True (Some \<lparr>count = 0, results = []\<rparr>)"
  shows "fst (serve_planets pageSize rs cache)
     = replicate (length rs) (Ok 0 [], [PageCall ''planets'' 1])"
  using assms
proof (induction rs arbitrary: cache)
  case Nil
  show ?case by simp
next
  case (Cons r rs)
  then show ?case
    by (simp add: get_planets_empty holds_nothing_set split_def Let_def)
qed

lemma serve_people_empty:
  assumes "holds_nothing ''PEOPLE'' cache"
    and "\<forall>r\<in>set rs. sort_params_valid (people_query r)
           \<and> people_pages r ''people'' 1 = Response True (Some \<lparr>count = 0, results = []\<rparr>)"
  shows "fst (serve_people pageSize localeCompare rs cache)
     = replicate (length rs) (Ok 0 [], [PageCall ''people'' 1])"
  using assms
proof (induction rs arbitrary: cache)
  case Nil
  show ?case by simp
next
  case (Cons r rs)
  then show ?case
    by (simp add: get_people_empty holds_nothing_set split_def Let_def)
qed

lemma get_people_cache_entry:
  "fst (snd (get_people pageSize localeCompare upstream q now later cache)) ''PEOPLE''
       = cache ''PEOPLE''
   \<or> fst (snd (get_people pageSize localeCompare upstream q now later cache)) ''PEOPLE'' = None
   \<or> (\<exists>fetched. fst (fetchAllPages pageSize upstream ''people'') = Inr fetched
         \<and> fst (snd (get_people pageSize localeCompare upstream q now later cache)) ''PEOPLE''
             = Some \<lparr>v = fetched, t = later + 300000\<rparr>)"
proof (cases "sort_params_valid q")
  case False
  from get_people_invalid [OF this, of pageSize localeCompare upstream now later cache]
  show ?thesis by auto
next
  case True
  show ?thesis
  proof (cases "fresh ''PEOPLE'' now cache")
    case True
    with \<open>sort_params_valid q\<close> show ?thesis by (simp add: get_people_fresh)
  next
    case False
    with \<open>sort_params_valid q\<close> cache_get_stale [OF False] show ?thesis
      by (auto simp: get_people_stale cache_set_def split: sum.splits)
  qed
qed

lemma fetch_and_resolve_two_planets:
  "fetch_and_resolve 10 two_planets sample_links
     = (Inr resolved_planets,
        [PageCall ''planets'' 1, LinkCall ''A'', LinkCall ''B'', LinkCall ''A''])"
proof -
  have "fetchAllPages 10 two_planets ''planets'' = (Inr [alderaan, yavin], [PageCall ''planets'' 1])"
    by (simp add: fetchAllPages_def two_planets_def fetch_def json_def remainingPages_def)
  moreover have "fetchResidentsWithErrorHandling sample_links [alderaan, yavin]
      = (Inr resolved_planets, [LinkCall ''A'', LinkCall ''B'', LinkCall ''A''])"
    by (simp add: fetchResidents_result resolved_planets_def alderaan_def yavin_def
        lookup_name_def sample_links_def leia_def enumerate_eq_zip upt_conv_Cons)
  ultimately show ?thesis
    by (simp add: fetch_and_resolve_def)
qed

text \<open>
  Claim C2, amended: for every valid field and direction the sort step sorts its input
  array in place and returns that same array; afterwards the array holds its former
  elements in sorted order, and every other array is as it was.  The collection in the
  cache is not reordered by serving a sorted request: the cache holds a clone, so a
  request served from the cache replies with the sorted collection and leaves the cache
  as it is, and after any request the entry for the people is the entry from before,
  or gone, or the collection just fetched in the order of the upstream.
\<close>

theorem sort_stage_in_place:
  assumes "sortBy \<in> set VALID_SORT_BY" and "sortOrder \<in> set VALID_SORT_ORDER"
    and "people < length h"
  shows "fst (sort_stage localeCompare sortBy sortOrder people h) = people
       \<and> length (snd (sort_stage localeCompare sortBy sortOrder people h)) = length h
       \<and> snd (sort_stage localeCompare sortBy sortOrder people h) ! people
           = js_sorted (compare_people localeCompare sortBy sortOrder) (h ! people)
       \<and> (\<forall>r<length h. r \<noteq> people
             \<longrightarrow> snd (sort_stage localeCompare sortBy sortOrder people h) ! r = h ! r)
       \<and> (sort_params_valid q \<and> fresh ''PEOPLE'' now cache
             \<longrightarrow> get_people pageSize localeCompare upstream q now later cache
                   = (Ok (length (v (the (cache ''PEOPLE''))))
                        (js_sorted (people_comparator localeCompare q) (v (the (cache ''PEOPLE'')))),
                      cache, []))
       \<and> (fst (snd (get_people pageSize localeCompare upstream q now later cache)) ''PEOPLE''
             = cache ''PEOPLE''
          \<or> fst (snd (get_people pageSize localeCompare upstream q now later cache)) ''PEOPLE''
             = None
          \<or> (\<exists>fetched. fst (fetchAllPages pageSize upstream ''people'') = Inr fetched
               \<and> fst (snd (get_people pageSize localeCompare upstream q now later cache)) ''PEOPLE''
                   = Some \<lparr>v = fetched, t = later + 300000\<rparr>))"
proof -
  have "fst (sort_stage localeCompare sortBy sortOrder people h) = people"
    by (simp add: sort_stage_def array_sort_def)
  moreover have "length (snd (sort_stage localeCompare sortBy sortOrder people h)) = length h"
    by (simp add: sort_stage_def array_sort_def)
  moreover have "snd (sort_stage localeCompare sortBy sortOrder people h) ! people
           = js_sorted (compare_people localeCompare sortBy sortOrder) (h ! people)"
    using assms(3) by (simp add: sort_stage_def array_sort_def)
  moreover have "\<forall>r<length h. r \<noteq> people
             \<longrightarrow> snd (sort_stage localeCompare sortBy sortOrder people h) ! r = h ! r"
    by (simp add: sort_stage_def array_sort_def)
  moreover have "sort_params_valid q \<and> fresh ''PEOPLE'' now cache
             \<longrightarrow> get_people pageSize localeCompare upstream q now later cache
                   = (Ok (length (v (the (cache ''PEOPLE''))))
                        (js_sorted (people_comparator localeCompare q) (v (the (cache ''PEOPLE'')))),
                      cache, [])"
    by (simp add: get_people_fresh)
  ultimately show ?thesis
    using get_people_cache_entry [of pageSize localeCompare upstream q now later cache]
    by blast
qed

theorem sort_stage_in_place_witness:
  "Str ''name'' \<in> set VALID_SORT_BY \<and> Str ''asc'' \<in> set VALID_SORT_ORDER
   \<and> (0::nat) < length [[luke, leia], [han]]
   \<and> sort_stage sample_compare (Str ''name'') (Str ''asc'') 0 [[luke, leia], [han]] = (0, [[leia, luke], [han]])
   \<and> sort_params_valid \<lparr>sortBy_param = None, sortOrder_param = None\<rparr>
   \<and> fresh ''PEOPLE'' 1000 cached_people
   \<and> get_people 10 sample_compare one_person \<lparr>sortBy_param = None, sortOrder_param = None\<rparr>
        1000 2000 cached_people
       = (Ok 2 [leia, luke], cached_people, [])
   \<and> v (the (cached_people ''PEOPLE'')) = [luke, leia]"
proof -
  let ?q = "\<lparr>sortBy_param = None, sortOrder_param = None\<rparr>"
  have v: "Str ''name'' \<in> set VALID_SORT_BY" "Str ''asc'' \<in> set VALID_SORT_ORDER"
    by (simp_all add: VALID_SORT_BY_def VALID_SORT_ORDER_def)
  have l: "(0::nat) < length [[luke, leia], [han]]" by simp
  have valid: "sort_params_valid ?q"
    by (simp add: sort_params_valid_def or_default_def VALID_SORT_BY_def VALID_SORT_ORDER_def)
  have hit: "fresh ''PEOPLE'' 1000 cached_people"
    by (simp add: fresh_def cached_people_def cache_set_def)
  have held: "v (the (cached_people ''PEOPLE'')) = [luke, leia]"
    by (simp add: cached_people_def cache_set_def)
  have sorted: "js_sorted (compare_people sample_compare (Str ''name'') (Str ''asc'')) [luke, leia] = [leia, luke]"
    by (simp add: js_sorted_def compare_people_def person_prop_def sample_compare_def
        luke_def leia_def)
  note t = sort_stage_in_place [OF v l, of sample_compare ?q 1000 cached_people 10 one_person 2000]
  have a: "sort_stage sample_compare (Str ''name'') (Str ''asc'') 0 [[luke, leia], [han]]
      = (0, [[leia, luke], [han]])"
  proof (rule prod_eqI)
    show "fst (sort_stage sample_compare (Str ''name'') (Str ''asc'') 0 [[luke, leia], [han]])
        = fst (0, [[leia, luke], [han]])"
      using t by simp
    have "length (snd (sort_stage sample_compare (Str ''name'') (Str ''asc'') 0 [[luke, leia], [han]])) = 2"
      "snd (sort_stage sample_compare (Str ''name'') (Str ''asc'') 0 [[luke, leia], [han]]) ! 0 = [leia, luke]"
      "snd (sort_stage sample_compare (Str ''name'') (Str ''asc'') 0 [[luke, leia], [han]]) ! 1 = [han]"
      using t sorted by simp_all
    then show "snd (sort_stage sample_compare (Str ''name'') (Str ''asc'') 0 [[luke, leia], [han]])
        = snd (0, [[leia, luke], [han]])"
      by (simp add: list_eq_iff_nth_eq less_Suc_eq numeral_2_eq_2)
  qed
  have b: "get_people 10 sample_compare one_person ?q 1000 2000 cached_people
       = (Ok 2 [leia, luke], cached_people, [])"
    using t valid hit held sorted by (simp add: people_comparator_def or_default_def)
  from v l a valid hit b held show ?thesis by simp
qed




text \<open>
  Claim C8 says that after a successful population every request within the time to live
  is served from the cache.  When the populated collection is empty it is not: the
  second request, within the window, calls the upstream again.
\<close>

theorem empty_planets_fetched_within_ttl:
  "fst (serve_planets 10 [empty_request 0, empty_request 1000] myCache)
     = [(Ok 0 [], [PageCall ''planets'' 1]), (Ok 0 [], [PageCall ''planets'' 1])]
   \<and> planets_now (empty_request 1000) \<le> planets_later (empty_request 0) + 300000"
proof -
  have "holds_nothing ''PLANETS'' (myCache :: planet node_cache)"
    by (simp add: holds_nothing_def myCache_def)
  moreover have "\<forall>r\<in>set [empty_request 0, empty_request 1000]. planets_pages r ''planets'' 1
      = Response True (Some \<lparr>count = 0, results = []\<rparr>)"
    by (simp add: empty_request_def empty_planets_def)
  ultimately have "fst (serve_planets 10 [empty_request 0, empty_request 1000] myCache)
      = replicate (length [empty_request 0, empty_request 1000]) (Ok 0 [], [PageCall ''planets'' 1])"
    by (rule serve_planets_empty)
  then show ?thesis
    by (simp add: numeral_2_eq_2 empty_request_def del: serve_planets.simps)
qed

text \<open>
  Claim C8, amended: let a request to \<^verbatim>\<open>/planets\<close> miss the cache and populate it with
  a collection that is not empty.  Then every later request whose lookup is within 300
  seconds of that store gets the same reply without any upstream call, and the first
  request after that window runs one fetch-and-resolve cycle, whose calls are its only
  calls, replies with its result and, when the cycle succeeds, stores it in the cache.
\<close>

theorem planets_cached_for_ttl:
  assumes miss: "\<not> fresh ''PLANETS'' (planets_now r0) cache"
    and cycle: "fst (fetch_and_resolve pageSize (planets_pages r0) (planets_links r0)) = Inr planets"
    and nonempty: "planets \<noteq> []"
    and window: "\<forall>r\<in>set rs. planets_now r \<le> planets_later r0 + 300000"
    and expired: "planets_later r0 + 300000 < planets_now r1"
  shows "serve_planets pageSize (r0 # rs @ [r1]) cache =
     ((Ok (length planets) planets,
         snd (fetch_and_resolve pageSize (planets_pages r0) (planets_links r0)))
        # replicate (length rs) (Ok (length planets) planets, [])
        @ [(reply_of (fst (fetch_and_resolve pageSize (planets_pages r1) (planets_links r1))),
            snd (fetch_and_resolve pageSize (planets_pages r1) (planets_links r1)))],
      (case fst (fetch_and_resolve pageSize (planets_pages r1) (planets_links r1)) of
         Inl e \<Rightarrow> cache(''PLANETS'' := None)
       | Inr planets1 \<Rightarrow> cache_set ''PLANETS'' planets1 300 (planets_later r1) cache))"
proof -
  let ?c1 = "cache_set ''PLANETS'' planets 300 (planets_later r0) cache"
  have first: "get_planets pageSize (planets_pages r0) (planets_links r0) (planets_now r0)
      (planets_later r0) cache
    = (Ok (length planets) planets, ?c1,
       snd (fetch_and_resolve pageSize (planets_pages r0) (planets_links r0)))"
    by (simp add: get_planets_stale [OF miss] cycle reply_of_def)
  have held: "v (the (?c1 ''PLANETS'')) = planets"
    by (simp add: cache_set_def)
  have "\<forall>r\<in>set rs. fresh ''PLANETS'' (planets_now r) ?c1"
    using window nonempty by (simp add: fresh_after_set)
  then have middle: "serve_planets pageSize rs ?c1 =
      (replicate (length rs) (Ok (length planets) planets, []), ?c1)"
    by (simp add: serve_planets_fresh held)
  have stale: "\<not> fresh ''PLANETS'' (planets_now r1) ?c1"
    using expired by (rule stale_after_set)
  have dropped: "snd (cache_get ''PLANETS'' (planets_now r1) ?c1) = cache(''PLANETS'' := None)"
    using expired by (simp add: cache_get_def cache_set_def)
  have again: "cache_set ''PLANETS'' xs 300 later ?c1 = cache_set ''PLANETS'' xs 300 later cache"
    for xs later
    by (simp add: cache_set_def)
  have last: "serve_planets pageSize [r1] ?c1 =
      ([(reply_of (fst (fetch_and_resolve pageSize (planets_pages r1) (planets_links r1))),
         snd (fetch_and_resolve pageSize (planets_pages r1) (planets_links r1)))],
       (case fst (fetch_and_resolve pageSize (planets_pages r1) (planets_links r1)) of
          Inl e \<Rightarrow> cache(''PLANETS'' := None)
        | Inr planets1 \<Rightarrow> cache_set ''PLANETS'' planets1 300 (planets_later r1) cache))"
    by (simp add: get_planets_stale [OF stale] dropped again split: sum.splits)
  have "serve_planets pageSize (r0 # rs @ [r1]) cache =
      ((Ok (length planets) planets,
          snd (fetch_and_resolve pageSize (planets_pages r0) (planets_links r0)))
         # fst (serve_planets pageSize (rs @ [r1]) ?c1),
       snd (serve_planets pageSize (rs @ [r1]) ?c1))"
    by (simp add: first split_def Let_def)
  then show ?thesis
    by (simp add: serve_planets_append middle last del: serve_planets.simps)
qed

theorem planets_cached_for_ttl_witness:
  "\<not> fresh ''PLANETS'' (planets_now (planets_request_at 0 50)) (myCache :: planet node_cache)
   \<and> resolved_planets \<noteq> []
   \<and> planets_later (planets_request_at 0 50) + 300000 < planets_now (planets_request_at 300051 300070)
   \<and> fst (serve_planets 10
            [planets_request_at 0 50, planets_request_at 1000 1100,
             planets_request_at 300050 300060, planets_request_at 300051 300070] myCache)
       = [(Ok 2 resolved_planets,
             [PageCall ''planets'' 1, LinkCall ''A'', LinkCall ''B'', LinkCall ''A'']),
          (Ok 2 resolved_planets, []),
          (Ok 2 resolved_planets, []),
          (Ok 2 resolved_planets,
             [PageCall ''planets'' 1, LinkCall ''A'', LinkCall ''B'', LinkCall ''A''])]"
proof -
  let ?r0 = "planets_request_at 0 50"
  let ?rs = "[planets_request_at 1000 1100, planets_request_at 300050 300060]"
  let ?r1 = "planets_request_at 300051 300070"
  have miss: "\<not> fresh ''PLANETS'' (planets_now ?r0) (myCache :: planet node_cache)"
    by (simp add: fresh_def myCache_def)
  have cycle: "fst (fetch_and_resolve 10 (planets_pages ?r0) (planets_links ?r0))
      = Inr resolved_planets"
    by (simp add: planets_request_at_def fetch_and_resolve_two_planets)
  have nonempty: "resolved_planets \<noteq> []"
    by (simp add: resolved_planets_def)
  have window: "\<forall>r\<in>set ?rs. planets_now r \<le> planets_later ?r0 + 300000"
    by (simp add: planets_request_at_def)
  have expired: "planets_later ?r0 + 300000 < planets_now ?r1"
    by (simp add: planets_request_at_def)
  have len: "length resolved_planets = 2"
    by (simp add: resolved_planets_def)
  have "fst (serve_planets 10 (?r0 # ?rs @ [?r1]) myCache)
       = [(Ok 2 resolved_planets,
             [PageCall ''planets'' 1, LinkCall ''A'', LinkCall ''B'', LinkCall ''A'']),
          (Ok 2 resolved_planets, []),
          (Ok 2 resolved_planets, []),
          (Ok 2 resolved_planets,
             [PageCall ''planets'' 1, LinkCall ''A'', LinkCall ''B'', LinkCall ''A''])]"
    unfolding planets_cached_for_ttl [OF miss cycle nonempty window expired]
    by (simp add: planets_request_at_def fetch_and_resolve_two_planets reply_of_def len
        numeral_2_eq_2)
  with miss nonempty expired show ?thesis
    by (simp del: serve_planets.simps)
qed

text \<open>
  Claim C10: an empty collection in the cache is a miss.  A request to \<^verbatim>\<open>/planets\<close>, or
  a valid one to \<^verbatim>\<open>/people\<close>, issues no upstream call exactly when the cache holds an
  unexpired entry whose collection is not empty, and then replies with that collection.
  While the upstream collection is empty, every request fetches the first page again,
  whatever the expiry time of the entry and the clock.  The count of a reply is the
  length of its results.
\<close>

theorem empty_collection_is_a_cache_miss:
  "(snd (snd (get_planets pageSize upstream links now later cache)) = []
      \<longleftrightarrow> fresh ''PLANETS'' now cache)
   \<and> (fresh ''PLANETS'' now cache
        \<longrightarrow> fst (get_planets pageSize upstream links now later cache)
              = Ok (length (v (the (cache ''PLANETS'')))) (v (the (cache ''PLANETS''))))
   \<and> (sort_params_valid q
        \<longrightarrow> (snd (snd (get_people pageSize localeCompare people_upstream q now later people_cache)) = []
               \<longleftrightarrow> fresh ''PEOPLE'' now people_cache))
   \<and> (holds_nothing ''PLANETS'' cache
        \<and> (\<forall>r\<in>set rs. planets_pages r ''planets'' 1
                         = Response True (Some \<lparr>count = 0, results = []\<rparr>))
        \<longrightarrow> fst (serve_planets pageSize rs cache)
              = replicate (length rs) (Ok 0 [], [PageCall ''planets'' 1]))
   \<and> (holds_nothing ''PEOPLE'' people_cache
        \<and> (\<forall>r\<in>set people_rs. sort_params_valid (people_query r)
               \<and> people_pages r ''people'' 1
                   = Response True (Some \<lparr>count = 0, results = []\<rparr>))
        \<longrightarrow> fst (serve_people pageSize localeCompare people_rs people_cache)
              = replicate (length people_rs) (Ok 0 [], [PageCall ''people'' 1]))
   \<and> (\<forall>n xs. fst (get_planets pageSize upstream links now later cache) = Ok n xs
        \<longrightarrow> n = length xs)
   \<and> (\<forall>n xs. fst (get_people pageSize localeCompare people_upstream q now later people_cache)
                = Ok n xs
        \<longrightarrow> n = length xs)"
proof (intro conjI)
  show "snd (snd (get_planets pageSize upstream links now later cache)) = []
      \<longleftrightarrow> fresh ''PLANETS'' now cache"
    by (rule get_planets_calls)
  show "fresh ''PLANETS'' now cache
        \<longrightarrow> fst (get_planets pageSize upstream links now later cache)
              = Ok (length (v (the (cache ''PLANETS'')))) (v (the (cache ''PLANETS'')))"
    by (simp add: get_planets_fresh)
  show "sort_params_valid q
        \<longrightarrow> (snd (snd (get_people pageSize localeCompare people_upstream q now later people_cache)) = []
               \<longleftrightarrow> fresh ''PEOPLE'' now people_cache)"
    by (simp add: get_people_calls)
  show "holds_nothing ''PLANETS'' cache
        \<and> (\<forall>r\<in>set rs. planets_pages r ''planets'' 1
                         = Response True (Some \<lparr>count = 0, results = []\<rparr>))
        \<longrightarrow> fst (serve_planets pageSize rs cache)
              = replicate (length rs) (Ok 0 [], [PageCall ''planets'' 1])"
    using serve_planets_empty by blast
  show "holds_nothing ''PEOPLE'' people_cache
        \<and> (\<forall>r\<in>set people_rs. sort_params_valid (people_query r)
               \<and> people_pages r ''people'' 1
                   = Response True (Some \<lparr>count = 0, results = []\<rparr>))
        \<longrightarrow> fst (serve_people pageSize localeCompare people_rs people_cache)
              = replicate (length people_rs) (Ok 0 [], [PageCall ''people'' 1])"
    using serve_people_empty by blast
  show "\<forall>n xs. fst (get_planets pageSize upstream links now later cache) = Ok n xs
        \<longrightarrow> n = length xs"
    using get_planets_count by blast
  show "\<forall>n xs. fst (get_people pageSize localeCompare people_upstream q now later people_cache)
                = Ok n xs
        \<longrightarrow> n = length xs"
    using get_people_count by blast
qed

theorem empty_collection_is_a_cache_miss_witness:
  "cached_nothing ''PLANETS'' = Some \<lparr>v = [], t = 300000\<rparr>
   \<and> \<not> fresh ''PLANETS'' 1000 cached_nothing
   \<and> snd (snd (get_planets 10 empty_planets sample_links 1000 1000 cached_nothing)) \<noteq> []
   \<and> holds_nothing ''PLANETS'' cached_nothing
   \<and> fst (serve_planets 10 [empty_request 1000, empty_request 2000] cached_nothing)
       = [(Ok 0 [], [PageCall ''planets'' 1]), (Ok 0 [], [PageCall ''planets'' 1])]
   \<and> sort_params_valid \<lparr>sortBy_param = None, sortOrder_param = None\<rparr>
   \<and> fst (get_people 10 sample_compare one_person \<lparr>sortBy_param = None, sortOrder_param = None\<rparr>
            0 0 myCache) = Ok 1 [leia]
   \<and> (1::nat) = length [leia]"
proof -
  let ?q = "\<lparr>sortBy_param = None, sortOrder_param = None\<rparr>"
  let ?rs = "[empty_request 1000, empty_request 2000]"
  note t = empty_collection_is_a_cache_miss [of 10 empty_planets sample_links 1000 1000
      cached_nothing ?q sample_compare one_person myCache ?rs "[]"]
  have entry: "cached_nothing ''PLANETS'' = Some \<lparr>v = [], t = 300000\<rparr>"
    by (simp add: cached_nothing_def cache_set_def)
  have stale: "\<not> fresh ''PLANETS'' 1000 cached_nothing"
    by (simp add: fresh_def entry)
  have vacant: "holds_nothing ''PLANETS'' cached_nothing"
    by (simp add: holds_nothing_def entry)
  have empty: "\<forall>r\<in>set ?rs. planets_pages r ''planets'' 1
      = Response True (Some \<lparr>count = 0, results = []\<rparr>)"
    by (simp add: empty_request_def empty_planets_def)
  have calls: "snd (snd (get_planets 10 empty_planets sample_links 1000 1000 cached_nothing)) \<noteq> []"
    using t [THEN conjunct1] stale by simp
  have "fst (serve_planets 10 ?rs cached_nothing)
       = replicate (length ?rs) (Ok 0 [], [PageCall ''planets'' 1])"
    by (rule t [THEN conjunct2, THEN conjunct2, THEN conjunct2, THEN conjunct1, THEN mp])
       (rule conjI [OF vacant empty])
  then have served: "fst (serve_planets 10 ?rs cached_nothing)
       = [(Ok 0 [], [PageCall ''planets'' 1]), (Ok 0 [], [PageCall ''planets'' 1])]"
    by (simp add: numeral_2_eq_2 del: serve_planets.simps)
  have valid: "sort_params_valid ?q"
    by (simp add: sort_params_valid_def or_default_def VALID_SORT_BY_def VALID_SORT_ORDER_def)
  have miss: "\<not> fresh ''PEOPLE'' 0 (myCache :: person node_cache)"
    by (simp add: fresh_def myCache_def)
  have fetched: "fetchAllPages 10 one_person ''people'' = (Inr [leia], [PageCall ''people'' 1])"
    by (simp add: fetchAllPages_def one_person_def fetch_def json_def remainingPages_def)
  have people: "fst (get_people 10 sample_compare one_person ?q 0 0 myCache) = Ok 1 [leia]"
    by (simp add: get_people_stale [OF valid miss] fetched js_sorted_def)
  from entry stale calls vacant served valid people show ?thesis
    by (simp del: serve_planets.simps)
qed

end
